theory Spec2Isabelle
  imports Complex_Main "HOL-Library.Word" "HOL-Library.Sublist"
begin

section \<open>Server side: the chat endpoint of webapp.py\<close>

subsection \<open>Python values\<close>

text \<open>
  A Python \<open>str\<close> is a sequence of code points. Literals of the source are written
  \<open>py ''...''\<close>.
\<close>

type_synonym pystr = "nat list"

definition py :: "string \<Rightarrow> pystr" where
  "py s = map of_char s"

text \<open>
  The handler never looks inside a \<open>float\<close>; the type is left abstract.
\<close>

typedecl pyfloat

text \<open>
  The values \<open>request.get_json\<close> can return: \<open>None\<close>, \<open>bool\<close>, \<open>int\<close>, \<open>float\<close>,
  \<open>str\<close>, \<open>list\<close> and \<open>dict\<close> (string keys). A \<open>dict\<close> is an association list read
  with \<open>map_of\<close>.
\<close>

datatype pyval =
    PNone
  | PBool bool
  | PInt int
  | PFloat pyfloat
  | PStr pystr
  | PList "pyval list"
  | PDict "(pystr \<times> pyval) list"

text \<open>
  The exceptions of the handler, all subclasses of \<open>Exception\<close>; each carries the text that
  \<open>str(e)\<close> returns. \<open>UpstreamError\<close> stands for whatever \<open>create\<close> raises.
\<close>

datatype py_exception =
    AttributeError pystr
  | IndexError pystr
  | UpstreamError pystr

fun exc_str :: "py_exception \<Rightarrow> pystr" where
  "exc_str (AttributeError s) = s"
| "exc_str (IndexError s) = s"
| "exc_str (UpstreamError s) = s"

fun type_name :: "pyval \<Rightarrow> pystr" where
  "type_name PNone = py ''NoneType''"
| "type_name (PBool _) = py ''bool''"
| "type_name (PInt _) = py ''int''"
| "type_name (PFloat _) = py ''float''"
| "type_name (PStr _) = py ''str''"
| "type_name (PList _) = py ''list''"
| "type_name (PDict _) = py ''dict''"

definition no_attribute :: "pyval \<Rightarrow> string \<Rightarrow> py_exception" where
  "no_attribute v a =
     AttributeError (py [CHR 0x27] @ type_name v @ py ([CHR 0x27] @ '' object has no attribute '' @ [CHR 0x27] @ a @ [CHR 0x27]))"

text \<open>
  \<open>v.get(k, d)\<close>: only a \<open>dict\<close> has the method; on every other value the attribute
  access raises \<open>AttributeError\<close>.
\<close>

fun py_get :: "pyval \<Rightarrow> pystr \<Rightarrow> pyval \<Rightarrow> py_exception + pyval" where
  "py_get (PDict kvs) k d = Inr (case map_of kvs k of None \<Rightarrow> d | Some v \<Rightarrow> v)"
| "py_get v k d = Inl (no_attribute v ''get'')"

fun isinstance_list :: "pyval \<Rightarrow> bool" where
  "isinstance_list (PList _) = True"
| "isinstance_list _ = False"

fun isinstance_str :: "pyval \<Rightarrow> bool" where
  "isinstance_str (PStr _) = True"
| "isinstance_str _ = False"

text \<open>
  \<open>str.strip()\<close> removes the characters for which \<open>str.isspace\<close> holds from both ends.
\<close>

definition py_isspace :: "nat \<Rightarrow> bool" where
  "py_isspace c \<longleftrightarrow>
     (0x09 \<le> c \<and> c \<le> 0x0D) \<or> (0x1C \<le> c \<and> c \<le> 0x20) \<or> c = 0x85 \<or> c = 0xA0 \<or>
     c = 0x1680 \<or> (0x2000 \<le> c \<and> c \<le> 0x200A) \<or> c = 0x2028 \<or> c = 0x2029 \<or>
     c = 0x202F \<or> c = 0x205F \<or> c = 0x3000"

definition py_strip :: "pystr \<Rightarrow> pystr" where
  "py_strip s = rev (dropWhile py_isspace (rev (dropWhile py_isspace s)))"

subsection \<open>The handler\<close>

record config =
  api_key :: pystr
  model :: pystr

record completion_request =
  req_model :: pystr
  req_messages :: "pyval list"
  req_max_tokens :: nat
  req_temperature :: rat

text \<open>
  The completion returned by the SDK: for each choice, \<open>message.content\<close>, which may be
  \<open>None\<close>.
\<close>

datatype completion = Completion (choices: "pystr option list")

text \<open>
  What one sending of the request to the service comes to, as the SDK client sees it: no
  response (a connection failure or a timeout), a response with an error status and,
  when it has one, its \<open>x-should-retry\<close> header, or a completion. The text is what
  \<open>str(e)\<close> gives for the exception the SDK raises for it. The service is a parameter of
  the handler: \<open>up req n\<close> is what the sending number \<open>n\<close> of \<open>req\<close> comes to.
\<close>

datatype answer =
    No_response pystr
  | Error_status nat "bool option" pystr
  | Completed completion

type_synonym upstream = "completion_request \<Rightarrow> nat \<Rightarrow> answer"

text \<open>
  Line 229 builds the client with the key alone, so the client keeps the SDK's default of
  two retries. While retries remain the SDK sends the request again after no response,
  and after an error status when the header says so or, without the header, when the
  status is 408, 409, 429 or at least 500.
\<close>

definition max_retries :: nat where
  "max_retries = 2"

fun should_retry :: "answer \<Rightarrow> bool" where
  "should_retry (No_response _) = True"
| "should_retry (Error_status code (Some b) _) = b"
| "should_retry (Error_status code None _) = (code = 408 \<or> code = 409 \<or> code = 429 \<or> 500 \<le> code)"
| "should_retry (Completed _) = False"

fun settle :: "answer \<Rightarrow> py_exception + completion" where
  "settle (No_response t) = Inl (UpstreamError t)"
| "settle (Error_status code h t) = Inl (UpstreamError t)"
| "settle (Completed c) = Inr c"

text \<open>
  The request loop of the client, on the answers to the successive sendings, the number
  of requests already sent and the retries that remain: what \<open>create\<close> returns or raises,
  and the number of requests sent.
\<close>

fun request_loop :: "(nat \<Rightarrow> answer) \<Rightarrow> nat \<Rightarrow> nat \<Rightarrow> (py_exception + completion) \<times> nat" where
  "request_loop answers sent 0 = (settle (answers sent), Suc sent)"
| "request_loop answers sent (Suc k) =
     (if should_retry (answers sent) then request_loop answers (Suc sent) k
      else (settle (answers sent), Suc sent))"

text \<open>Lines 229-235: \<open>client.chat.completions.create(...)\<close>.\<close>

definition create :: "upstream \<Rightarrow> completion_request \<Rightarrow> (py_exception + completion) \<times> nat" where
  "create up req = request_loop (up req) 0 max_retries"

datatype http_result =
    Response nat pyval
  | Unhandled py_exception

text \<open>
  How the handler ends, the requests it passed to \<open>create\<close>, and the requests the client
  sent to the service.
\<close>

record outcome =
  result :: http_result
  upstream_calls :: "completion_request list"
  requests_sent :: "completion_request list"

definition system_prompt :: pystr where
  "system_prompt =
     py (''You are a friendly, concise, cute assistant that replies helpfully and briefly. '' @
         ''Keep responses pleasant and slightly playful, suitable for a pastel-themed chat UI.'')"

definition message :: "pyval \<Rightarrow> pyval \<Rightarrow> pyval" where
  "message r c = PDict [(py ''role'', r), (py ''content'', c)]"

definition system_message :: pyval where
  "system_message = message (PStr (py ''system'')) (PStr system_prompt)"

text \<open>The test of line 223: the entry is kept when it is false.\<close>

definition dropped :: "pyval \<Rightarrow> pyval \<Rightarrow> bool" where
  "dropped r c \<longleftrightarrow> r \<notin> set [PStr (py ''user''), PStr (py ''assistant'')] \<or> \<not> isinstance_str c"

text \<open>The loop of lines 220-225, with \<open>openai_messages\<close> as the accumulator.\<close>

fun convert :: "pyval list \<Rightarrow> pyval list \<Rightarrow> py_exception + pyval list" where
  "convert openai_messages [] = Inr openai_messages"
| "convert openai_messages (m # ms) =
     (case py_get m (py ''role'') PNone of
        Inl e \<Rightarrow> Inl e
      | Inr r \<Rightarrow>
         (case py_get m (py ''content'') PNone of
            Inl e \<Rightarrow> Inl e
          | Inr c \<Rightarrow>
             if dropped r c then convert openai_messages ms
             else convert (openai_messages @ [message r c]) ms))"

text \<open>
  Lines 207-225: everything before the \<open>try\<close>, on the value \<open>data\<close> that
  \<open>request.get_json\<close> returned. The result is either how the handler ends without calling
  upstream (a response of its own, or an exception that nothing handles), or the request
  it is about to send.
\<close>

definition prepare :: "config \<Rightarrow> pyval \<Rightarrow> http_result + completion_request" where
  "prepare cfg data =
     (case py_get data (py ''messages'') (PList []) of
        Inl e \<Rightarrow> Inl (Unhandled e)
      | Inr messages \<Rightarrow>
         if \<not> isinstance_list messages
         then Inl (Response 400 (PDict [(py ''error'', PStr (py ''invalid messages''))]))
         else (case messages of
                 PList ms \<Rightarrow>
                   (case convert [system_message] ms of
                      Inl e \<Rightarrow> Inl (Unhandled e)
                    | Inr openai_messages \<Rightarrow>
                        Inr \<lparr>req_model = model cfg, req_messages = openai_messages,
                             req_max_tokens = 512, req_temperature = 7 / 10\<rparr>)
               | _ \<Rightarrow> Inl (Response 400 (PDict [(py ''error'', PStr (py ''invalid messages''))]))))"

text \<open>Line 237: \<open>resp.choices[0].message.content.strip()\<close>.\<close>

fun reply_of :: "completion \<Rightarrow> py_exception + pystr" where
  "reply_of (Completion []) = Inl (IndexError (py ''list index out of range''))"
| "reply_of (Completion (None # _)) = Inl (no_attribute PNone ''strip'')"
| "reply_of (Completion (Some s # _)) = Inr (py_strip s)"

text \<open>The body of the \<open>try\<close>, lines 229-237.\<close>

definition try_body :: "upstream \<Rightarrow> completion_request \<Rightarrow> py_exception + pystr" where
  "try_body up req =
     (case fst (create up req) of Inl e \<Rightarrow> Inl e | Inr resp \<Rightarrow> reply_of resp)"

definition chat :: "config \<Rightarrow> upstream \<Rightarrow> pyval \<Rightarrow> outcome" where
  "chat cfg up data =
     (case prepare cfg data of
        Inl r \<Rightarrow> \<lparr>result = r, upstream_calls = [], requests_sent = []\<rparr>
      | Inr req \<Rightarrow>
          \<lparr>result =
             (case try_body up req of
                Inr reply \<Rightarrow> Response 200 (PDict [(py ''reply'', PStr reply)])
              | Inl e \<Rightarrow> Response 500 (PDict [(py ''error'', PStr (exc_str e))])),
           upstream_calls = [req],
           requests_sent = replicate (snd (create up req)) req\<rparr>)"

section \<open>Client side: the script of the page\<close>

subsection \<open>Strings\<close>

text \<open>
  A JavaScript string is a sequence of UTF-16 code units. Literals of the script are
  written \<open>js ''...''\<close>; the sentinel of the typing placeholder is the single code unit
  U+2026.
\<close>

type_synonym jschar = "16 word"

type_synonym jsstr = "jschar list"

definition js :: "string \<Rightarrow> jsstr" where
  "js s = map of_char s"

definition ellipsis :: jsstr where
  "ellipsis = [0x2026]"

text \<open>
  The white space and line terminators of ECMAScript: what \<open>trim\<close> removes and what
  \<open>\s\<close> matches in a regular expression.
\<close>

definition js_whitespace :: "jschar \<Rightarrow> bool" where
  "js_whitespace c \<longleftrightarrow>
     (0x09 \<le> c \<and> c \<le> 0x0D) \<or> c = 0x20 \<or> c = 0xA0 \<or> c = 0x1680 \<or>
     (0x2000 \<le> c \<and> c \<le> 0x200A) \<or> c = 0x2028 \<or> c = 0x2029 \<or> c = 0x202F \<or>
     c = 0x205F \<or> c = 0x3000 \<or> c = 0xFEFF"

definition js_trim :: "jsstr \<Rightarrow> jsstr" where
  "js_trim s = rev (dropWhile js_whitespace (rev (dropWhile js_whitespace s)))"

subsection \<open>escapeHtml, linkify and the content of a message element\<close>

text \<open>Line 148: each of \<open>&\<close>, \<open><\<close>, \<open>>\<close>, \<open>"\<close>, \<open>'\<close> is replaced by its entity.\<close>

definition escape_char :: "jschar \<Rightarrow> jsstr" where
  "escape_char c =
     (if c = 0x26 then js ''&amp;''
      else if c = 0x3C then js ''&lt;''
      else if c = 0x3E then js ''&gt;''
      else if c = 0x22 then js ''&quot;''
      else if c = 0x27 then js ''&#039;''
      else [c])"

definition escapeHtml :: "jsstr \<Rightarrow> jsstr" where
  "escapeHtml unsafe = concat (map escape_char unsafe)"

text \<open>
  Line 149: the global replacement of \<open>/(https?:\/\/[^\s]+)/g\<close>. At a position the
  expression matches \<open>https://\<close> or \<open>http://\<close> followed by the longest non-empty run of
  characters that are not white space; the scan resumes after the match.
\<close>

definition non_space :: "jschar \<Rightarrow> bool" where
  "non_space c \<longleftrightarrow> \<not> js_whitespace c"

definition match_url :: "jsstr \<Rightarrow> (jsstr \<times> jsstr) option" where
  "match_url s =
     (let n = (if prefix (js ''https://'') s then 8 else if prefix (js ''http://'') s then 7 else 0);
          tail = takeWhile non_space (drop n s)
      in if n = 0 \<or> tail = [] then None
         else Some (take n s @ tail, dropWhile non_space (drop n s)))"

definition anchor :: "jsstr \<Rightarrow> jsstr" where
  "anchor url =
     js ''<a href=\"'' @ url @ js ''\" target=\"_blank\" rel=\"noopener\">'' @ url @ js ''</a>''"

lemma match_url_shorter: "match_url s = Some (u, r) \<Longrightarrow> length r < length s"
proof -
  assume m: "match_url s = Some (u, r)"
  define n :: nat
    where "n = (if prefix (js ''https://'') s then 8 else if prefix (js ''http://'') s then 7 else 0)"
  from m have t: "takeWhile non_space (drop n s) \<noteq> []"
    and r: "r = dropWhile non_space (drop n s)"
    by (auto simp: match_url_def Let_def n_def split: if_splits)
  have "length (takeWhile non_space (drop n s)) + length r = length (drop n s)"
    unfolding r by (metis length_append takeWhile_dropWhile_id)
  moreover from t have "0 < length (takeWhile non_space (drop n s))" by simp
  ultimately have "length r < length (drop n s)" by linarith
  then show ?thesis by simp
qed

function linkify :: "jsstr \<Rightarrow> jsstr" where
  "linkify [] = []"
| "linkify (c # cs) =
     (case match_url (c # cs) of
        Some (url, rest) \<Rightarrow> anchor url @ linkify rest
      | None \<Rightarrow> c # linkify cs)"
  by pat_completeness auto
termination
  by (relation "measure length") (auto dest: match_url_shorter)

definition replace_newlines :: "jsstr \<Rightarrow> jsstr" where
  "replace_newlines s = concat (map (\<lambda>c. if c = 0x0A then js ''<br>'' else [c]) s)"

text \<open>Line 139: the markup assigned to \<open>content.innerHTML\<close>.\<close>

definition render_content :: "jsstr \<Rightarrow> jsstr" where
  "render_content c = replace_newlines (linkify (escapeHtml c))"

subsection \<open>Values\<close>

text \<open>
  The values that \<open>JSON.parse\<close> returns and the script builds, and \<open>undefined\<close>. An
  object is the list of its own properties in property order. A number is carried as
  the literal it was read from: the script never computes with one, and the conversion
  of a double to text is not modelled.
\<close>

datatype jsval =
    JUndefined
  | JNull
  | JBool bool
  | JNum jsstr
  | JStr jsstr
  | JArr "jsval list"
  | JObj "(jsstr \<times> jsval) list"

datatype js_error = TypeError | SyntaxError

text \<open>
  Reading the property \<open>role\<close> or \<open>content\<close> of a value: \<open>null\<close> and \<open>undefined\<close> throw,
  an object gives its own property or \<open>undefined\<close>, and no other value of this type
  has a property of either name.
\<close>

fun property :: "jsval \<Rightarrow> jsstr \<Rightarrow> js_error + jsval" where
  "property JUndefined k = Inl TypeError"
| "property JNull k = Inl TypeError"
| "property (JObj kvs) k = Inr (case map_of kvs k of None \<Rightarrow> JUndefined | Some v \<Rightarrow> v)"
| "property v k = Inr JUndefined"

text \<open>\<open>history.push(x)\<close>: only an array has the method.\<close>

fun push :: "jsval \<Rightarrow> jsval \<Rightarrow> js_error + jsval" where
  "push (JArr xs) x = Inr (JArr (xs @ [x]))"
| "push v x = Inl TypeError"

subsection \<open>JSON.stringify\<close>

definition hex_digit :: "nat \<Rightarrow> jschar" where
  "hex_digit n = (if n < 10 then 0x30 + of_nat n else 0x61 + of_nat (n - 10))"

definition unicode_escape :: "jschar \<Rightarrow> jsstr" where
  "unicode_escape c =
     [0x5C, 0x75, hex_digit (unat c div 4096 mod 16), hex_digit (unat c div 256 mod 16),
      hex_digit (unat c div 16 mod 16), hex_digit (unat c mod 16)]"

definition high_surrogate :: "jschar \<Rightarrow> bool" where
  "high_surrogate c \<longleftrightarrow> 0xD800 \<le> c \<and> c \<le> 0xDBFF"

definition low_surrogate :: "jschar \<Rightarrow> bool" where
  "low_surrogate c \<longleftrightarrow> 0xDC00 \<le> c \<and> c \<le> 0xDFFF"

text \<open>
  QuoteJSONString on one code unit that is not part of a surrogate pair: the two-character
  escapes, \<open>\uXXXX\<close> for the other control characters and for a lone surrogate, and the
  code unit itself otherwise.
\<close>

definition quote_unit :: "jschar \<Rightarrow> jsstr" where
  "quote_unit c =
     (if c = 0x08 then [0x5C, 0x62]
      else if c = 0x09 then [0x5C, 0x74]
      else if c = 0x0A then [0x5C, 0x6E]
      else if c = 0x0C then [0x5C, 0x66]
      else if c = 0x0D then [0x5C, 0x72]
      else if c = 0x22 then [0x5C, 0x22]
      else if c = 0x5C then [0x5C, 0x5C]
      else if c < 0x20 \<or> high_surrogate c \<or> low_surrogate c then unicode_escape c
      else [c])"

fun quote_chars :: "jsstr \<Rightarrow> jsstr" where
  "quote_chars [] = []"
| "quote_chars [c] = quote_unit c"
| "quote_chars (c # d # r) =
     (if high_surrogate c \<and> low_surrogate d then c # d # quote_chars r
      else quote_unit c @ quote_chars (d # r))"

definition quote :: "jsstr \<Rightarrow> jsstr" where
  "quote s = [0x22] @ quote_chars s @ [0x22]"

fun join_comma :: "jsstr list \<Rightarrow> jsstr" where
  "join_comma [] = []"
| "join_comma [t] = t"
| "join_comma (t # u # ts) = t @ [0x2C] @ join_comma (u # ts)"

text \<open>
  \<open>JSON.stringify(v)\<close>; \<open>None\<close> is the result \<open>undefined\<close>. In an array \<open>undefined\<close> is
  written \<open>null\<close>; in an object a property whose value is \<open>undefined\<close> is left out.
\<close>

fun stringify :: "jsval \<Rightarrow> jsstr option" where
  "stringify JUndefined = None"
| "stringify JNull = Some (js ''null'')"
| "stringify (JBool b) = Some (if b then js ''true'' else js ''false'')"
| "stringify (JNum lit) = Some lit"
| "stringify (JStr s) = Some (quote s)"
| "stringify (JArr xs) =
     Some ([0x5B] @
           join_comma (map (\<lambda>x. case stringify x of None \<Rightarrow> js ''null'' | Some t \<Rightarrow> t) xs) @
           [0x5D])"
| "stringify (JObj kvs) =
     Some ([0x7B] @
           join_comma (concat (map (\<lambda>(k, v). case stringify v of
                                                 None \<Rightarrow> []
                                               | Some t \<Rightarrow> [quote k @ [0x3A] @ t]) kvs)) @
           [0x7D])"

subsection \<open>JSON.parse\<close>

definition json_ws :: "jschar \<Rightarrow> bool" where
  "json_ws c \<longleftrightarrow> c = 0x20 \<or> c = 0x09 \<or> c = 0x0A \<or> c = 0x0D"

definition skip_ws :: "jsstr \<Rightarrow> jsstr" where
  "skip_ws s = dropWhile json_ws s"

definition is_digit :: "jschar \<Rightarrow> bool" where
  "is_digit c \<longleftrightarrow> 0x30 \<le> c \<and> c \<le> 0x39"

definition hex_value :: "jschar \<Rightarrow> nat option" where
  "hex_value c =
     (if is_digit c then Some (unat c - 0x30)
      else if 0x61 \<le> c \<and> c \<le> 0x66 then Some (unat c - 0x61 + 10)
      else if 0x41 \<le> c \<and> c \<le> 0x46 then Some (unat c - 0x41 + 10)
      else None)"

definition simple_escape :: "jschar \<Rightarrow> jschar option" where
  "simple_escape e =
     (if e = 0x22 then Some 0x22
      else if e = 0x2F then Some 0x2F
      else if e = 0x5C then Some 0x5C
      else if e = 0x62 then Some 0x08
      else if e = 0x66 then Some 0x0C
      else if e = 0x6E then Some 0x0A
      else if e = 0x72 then Some 0x0D
      else if e = 0x74 then Some 0x09
      else None)"

definition hex4 :: "jschar \<Rightarrow> jschar \<Rightarrow> jschar \<Rightarrow> jschar \<Rightarrow> jschar option" where
  "hex4 h1 h2 h3 h4 =
     (case (hex_value h1, hex_value h2, hex_value h3, hex_value h4) of
        (Some a, Some b, Some c, Some d) \<Rightarrow> Some (of_nat (((a * 16 + b) * 16 + c) * 16 + d))
      | _ \<Rightarrow> None)"

definition consed :: "'a \<Rightarrow> ('a list \<times> 'b) option \<Rightarrow> ('a list \<times> 'b) option" where
  "consed x p = map_option (\<lambda>(xs, r). (x # xs, r)) p"

text \<open>
  The characters of a string after its opening quote, up to the closing quote: the
  string read and the rest of the text. \<open>None\<close> is a syntax error.
\<close>

fun parse_string_chars :: "jsstr \<Rightarrow> (jsstr \<times> jsstr) option" where
  "parse_string_chars [] = None"
| "parse_string_chars (c # cs) =
     (if c = 0x22 then Some ([], cs)
      else if c = 0x5C then
        (case cs of
           [] \<Rightarrow> None
         | e # r \<Rightarrow>
            if e = 0x75 then
              (case r of
                 h1 # h2 # h3 # h4 # r' \<Rightarrow>
                   (case hex4 h1 h2 h3 h4 of
                      None \<Rightarrow> None
                    | Some u \<Rightarrow> consed u (parse_string_chars r'))
               | _ \<Rightarrow> None)
            else
              (case simple_escape e of
                 None \<Rightarrow> None
               | Some u \<Rightarrow> consed u (parse_string_chars r)))
      else if c < 0x20 then None
      else consed c (parse_string_chars cs))"

lemma parse_string_chars_shorter:
  "parse_string_chars s = Some (k, r) \<Longrightarrow> length r < length s"
  by (induction s arbitrary: k r rule: parse_string_chars.induct)
     (fastforce simp: consed_def split: if_splits list.splits option.splits)+

text \<open>
  A number: an optional minus, \<open>0\<close> or a digit string, an optional fraction and an
  optional exponent.
\<close>

definition digits1 :: "jsstr \<Rightarrow> (jsstr \<times> jsstr) option" where
  "digits1 s = (if takeWhile is_digit s = [] then None
                else Some (takeWhile is_digit s, dropWhile is_digit s))"

definition parse_int_part :: "jsstr \<Rightarrow> (jsstr \<times> jsstr) option" where
  "parse_int_part s =
     (case s of
        [] \<Rightarrow> None
      | c # cs \<Rightarrow> if c = 0x30 then Some ([c], cs) else digits1 s)"

definition parse_fraction :: "jsstr \<Rightarrow> (jsstr \<times> jsstr) option" where
  "parse_fraction s =
     (case s of
        [] \<Rightarrow> Some ([], s)
      | c # cs \<Rightarrow>
          if c = 0x2E then map_option (\<lambda>(ds, r). (c # ds, r)) (digits1 cs)
          else Some ([], s))"

definition parse_exponent :: "jsstr \<Rightarrow> (jsstr \<times> jsstr) option" where
  "parse_exponent s =
     (case s of
        [] \<Rightarrow> Some ([], s)
      | c # cs \<Rightarrow>
          if c = 0x65 \<or> c = 0x45 then
            (case cs of
               [] \<Rightarrow> None
             | d # ds \<Rightarrow>
                 if d = 0x2B \<or> d = 0x2D then map_option (\<lambda>(es, r). (c # d # es, r)) (digits1 ds)
                 else map_option (\<lambda>(es, r). (c # es, r)) (digits1 cs))
          else Some ([], s))"

definition parse_number :: "jsstr \<Rightarrow> (jsstr \<times> jsstr) option" where
  "parse_number s =
     (let (sign, s1) = (case s of [] \<Rightarrow> ([], s) | c # cs \<Rightarrow> if c = 0x2D then ([c], cs) else ([], s))
      in case parse_int_part s1 of
           None \<Rightarrow> None
         | Some (ip, s2) \<Rightarrow>
            (case parse_fraction s2 of
               None \<Rightarrow> None
             | Some (fp, s3) \<Rightarrow>
                (case parse_exponent s3 of
                   None \<Rightarrow> None
                 | Some (ep, s4) \<Rightarrow> Some (sign @ ip @ fp @ ep, s4))))"

text \<open>
  The object built from the members of an object text, in the order they are read: a
  repeated key keeps its place and takes the later value; keys that are array indices
  come first, in ascending order, and the other keys follow in the order of their
  creation.
\<close>

definition array_index :: "jsstr \<Rightarrow> nat option" where
  "array_index k =
     (if k = [] \<or> \<not> list_all is_digit k \<or> (hd k = 0x30 \<and> length k > 1) then None
      else let n = foldl (\<lambda>a c. 10 * a + (unat c - 0x30)) 0 k
           in if n < 4294967295 then Some n else None)"

definition key_before :: "jsstr \<Rightarrow> jsstr \<Rightarrow> bool" where
  "key_before k k' =
     (case array_index k of
        None \<Rightarrow> False
      | Some n \<Rightarrow> (case array_index k' of None \<Rightarrow> True | Some n' \<Rightarrow> n < n'))"

fun insert_property :: "(jsstr \<times> jsval) list \<Rightarrow> jsstr \<Rightarrow> jsval \<Rightarrow> (jsstr \<times> jsval) list" where
  "insert_property [] k v = [(k, v)]"
| "insert_property ((k', v') # kvs) k v =
     (if key_before k k' then (k, v) # (k', v') # kvs
      else (k', v') # insert_property kvs k v)"

definition define_property :: "(jsstr \<times> jsval) list \<Rightarrow> jsstr \<times> jsval \<Rightarrow> (jsstr \<times> jsval) list" where
  "define_property kvs kv =
     (if fst kv \<in> fst ` set kvs
      then map (\<lambda>p. if fst p = fst kv then kv else p) kvs
      else insert_property kvs (fst kv) (snd kv))"

definition make_object :: "(jsstr \<times> jsval) list \<Rightarrow> jsval" where
  "make_object members = JObj (foldl define_property [] members)"

lemma length_skip_ws: "length (skip_ws s) \<le> length s"
  by (simp add: skip_ws_def length_dropWhile_le)

text \<open>
  A value, the elements of a non-empty array after \<open>[\<close> and the members of a non-empty
  object after \<open>{\<close>, each on a text whose leading white space has been skipped; the
  result is what was read and the rest of the text, \<open>None\<close> a syntax error. The two
  tests on lengths make the recursion well-founded; they always succeed
  (\<open>parse_elements_unguarded\<close> and \<open>parse_members_unguarded\<close> below).
\<close>

function parse_value :: "jsstr \<Rightarrow> (jsval \<times> jsstr) option"
  and parse_elements :: "jsstr \<Rightarrow> (jsval list \<times> jsstr) option"
  and parse_members :: "jsstr \<Rightarrow> ((jsstr \<times> jsval) list \<times> jsstr) option"
where
  "parse_value s =
     (case s of
        [] \<Rightarrow> None
      | c # cs \<Rightarrow>
          if c = 0x22 then map_option (\<lambda>(t, r). (JStr t, r)) (parse_string_chars cs)
          else if c = 0x5B then
            (case skip_ws cs of
               [] \<Rightarrow> None
             | d # ds \<Rightarrow>
                 if d = 0x5D then Some (JArr [], ds)
                 else map_option (\<lambda>(vs, r). (JArr vs, r)) (parse_elements (skip_ws cs)))
          else if c = 0x7B then
            (case skip_ws cs of
               [] \<Rightarrow> None
             | d # ds \<Rightarrow>
                 if d = 0x7D then Some (JObj [], ds)
                 else map_option (\<lambda>(ms, r). (make_object ms, r)) (parse_members (skip_ws cs)))
          else if prefix (js ''true'') s then Some (JBool True, drop 4 s)
          else if prefix (js ''false'') s then Some (JBool False, drop 5 s)
          else if prefix (js ''null'') s then Some (JNull, drop 4 s)
          else map_option (\<lambda>(lit, r). (JNum lit, r)) (parse_number s))"
| "parse_elements s =
     (case parse_value s of
        None \<Rightarrow> None
      | Some (v, r) \<Rightarrow>
         (case skip_ws r of
            [] \<Rightarrow> None
          | d # ds \<Rightarrow>
              if d = 0x5D then Some ([v], ds)
              else if d = 0x2C \<and> length (skip_ws ds) < length s
              then consed v (parse_elements (skip_ws ds))
              else None))"
| "parse_members s =
     (case s of
        [] \<Rightarrow> None
      | q # cs \<Rightarrow>
          if q \<noteq> 0x22 then None
          else
            (case parse_string_chars cs of
               None \<Rightarrow> None
             | Some (k, r) \<Rightarrow>
                (case skip_ws r of
                   [] \<Rightarrow> None
                 | colon # r1 \<Rightarrow>
                     if colon \<noteq> 0x3A then None
                     else
                       (case parse_value (skip_ws r1) of
                          None \<Rightarrow> None
                        | Some (v, r2) \<Rightarrow>
                           (case skip_ws r2 of
                              [] \<Rightarrow> None
                            | d # ds \<Rightarrow>
                                if d = 0x7D then Some ([(k, v)], ds)
                                else if d = 0x2C \<and> length (skip_ws ds) < length s
                                then consed (k, v) (parse_members (skip_ws ds))
                                else None)))))"
  by pat_completeness auto
termination
proof (relation "measures [\<lambda>x. case x of Inl s \<Rightarrow> length s | Inr (Inl s) \<Rightarrow> length s | Inr (Inr s) \<Rightarrow> length s,
                           \<lambda>x. case x of Inl s \<Rightarrow> 0 | Inr _ \<Rightarrow> 1]", goal_cases)
  case 1 show ?case by simp
next
  case (2 s c cs) thus ?case using length_skip_ws[of cs] by simp
next
  case (3 s c cs) thus ?case using length_skip_ws[of cs] by simp
next
  case 4 thus ?case by simp
next
  case 5 thus ?case by simp
next
  case (6 s q cs p k r colon r1)
  from 6 have "length r < length cs" using parse_string_chars_shorter[of cs k r] by simp
  moreover have "length (skip_ws r) \<le> length r" by (rule length_skip_ws)
  moreover from 6 have "length r1 < length (skip_ws r)" by simp
  moreover have "length (skip_ws r1) \<le> length r1" by (rule length_skip_ws)
  ultimately show ?case using 6 by simp
next
  case 7 thus ?case by simp
qed

declare parse_value.simps [simp del] parse_elements.simps [simp del] parse_members.simps [simp del]

text \<open>\<open>JSON.parse(text)\<close>: one value between optional white space, or a \<open>SyntaxError\<close>.\<close>

definition JSON_parse :: "jsstr \<Rightarrow> js_error + jsval" where
  "JSON_parse text =
     (case parse_value (skip_ws text) of
        None \<Rightarrow> Inl SyntaxError
      | Some (v, r) \<Rightarrow> if skip_ws r = [] then Inr v else Inl SyntaxError)"

subsection \<open>The state of the page\<close>

text \<open>
  A message element of the list: the class of the \<open>div\<close>, the text of its \<open>meta\<close> child
  and the markup assigned to the \<open>innerHTML\<close> of its content child.
\<close>

record element =
  className :: jsstr
  meta :: jsstr
  innerHTML :: jsstr

record request =
  url :: jsstr
  http_method :: jsstr
  content_type :: jsstr
  body :: jsstr

text \<open>
  What the script reads and writes: the value of the input box, local storage, the
  children of \<open>#messages\<close>, and the requests issued with \<open>fetch\<close>, oldest first.
\<close>

record client =
  inputValue :: jsstr
  localStorage :: "jsstr \<rightharpoonup> jsstr"
  messagesEl :: "element list"
  requests :: "request list"

definition history_key :: jsstr where
  "history_key = js ''cute_chat_history''"

definition apiBase :: jsstr where
  "apiBase = js ''/api/chat''"

subsection \<open>loadHistory and saveHistory\<close>

text \<open>
  Lines 122-126. \<open>getItem\<close> returns \<open>null\<close> for a missing key; \<open>!raw\<close> holds for \<open>null\<close>
  and for the empty string; the \<open>catch\<close> turns every error of \<open>JSON.parse\<close> into the
  empty array.
\<close>

definition loadHistory :: "client \<Rightarrow> js_error + jsval" where
  "loadHistory st =
     (case localStorage st history_key of
        None \<Rightarrow> Inr (JArr [])
      | Some raw \<Rightarrow>
          if raw = [] then Inr (JArr [])
          else (case JSON_parse raw of
                  Inr v \<Rightarrow> Inr v
                | Inl e \<Rightarrow> Inr (JArr [])))"

text \<open>
  Lines 128-130. \<open>setItem\<close> stores the string form of its argument, which is
  \<open>undefined\<close> when \<open>JSON.stringify\<close> returns \<open>undefined\<close>. The write is taken to succeed.
\<close>

definition saveHistory :: "jsval \<Rightarrow> client \<Rightarrow> client" where
  "saveHistory history st =
     st\<lparr>localStorage :=
          (localStorage st)(history_key \<mapsto>
             (case stringify history of None \<Rightarrow> js ''undefined'' | Some t \<Rightarrow> t))\<rparr>"

subsection \<open>renderMessages\<close>

text \<open>
  The body of the \<open>forEach\<close> callback, lines 135-142: the element for one entry, or the
  \<open>TypeError\<close> of reading a property of \<open>null\<close> or of calling \<open>replace\<close> on a content
  that is not a string.
\<close>

definition render_message :: "jsval \<Rightarrow> js_error + element" where
  "render_message m =
     (case property m (js ''role'') of
        Inl e \<Rightarrow> Inl e
      | Inr r \<Rightarrow>
         (case property m (js ''content'') of
            Inl e \<Rightarrow> Inl e
          | Inr c \<Rightarrow>
             (case c of
                JStr text \<Rightarrow>
                  Inr \<lparr>className = js ''msg '' @ (if r = JStr (js ''user'') then js ''user'' else js ''bot''),
                       meta = (if r = JStr (js ''user'') then js ''You'' else js ''Assistant''),
                       innerHTML = render_content text\<rparr>
              | _ \<Rightarrow> Inl TypeError)))"

fun render_each :: "jsval list \<Rightarrow> element list \<Rightarrow> element list \<times> js_error option" where
  "render_each [] els = (els, None)"
| "render_each (m # ms) els =
     (case render_message m of
        Inl e \<Rightarrow> (els, Some e)
      | Inr el \<Rightarrow> render_each ms (els @ [el]))"

text \<open>
  Lines 132-146. The list is emptied first; elements are appended until an entry
  throws. A history that is not an array has no \<open>forEach\<close>.
\<close>

definition renderMessages :: "jsval \<Rightarrow> client \<Rightarrow> client \<times> js_error option" where
  "renderMessages history st =
     (case history of
        JArr ms \<Rightarrow> (st\<lparr>messagesEl := fst (render_each ms [])\<rparr>, snd (render_each ms []))
      | _ \<Rightarrow> (st\<lparr>messagesEl := []\<rparr>, Some TypeError))"

subsection \<open>sendMessage\<close>

definition js_message :: "jsstr \<Rightarrow> jsstr \<Rightarrow> jsval" where
  "js_message r c = JObj [(js ''role'', JStr r), (js ''content'', JStr c)]"

definition typingPlaceholder :: jsval where
  "typingPlaceholder = js_message (js ''assistant'') ellipsis"

text \<open>Line 169: \<open>history.filter(m => m.content !== ellipsis)\<close>.\<close>

fun filter_placeholder :: "jsval list \<Rightarrow> js_error + jsval list" where
  "filter_placeholder [] = Inr []"
| "filter_placeholder (m # ms) =
     (case property m (js ''content'') of
        Inl e \<Rightarrow> Inl e
      | Inr c \<Rightarrow>
         (case filter_placeholder ms of
            Inl e \<Rightarrow> Inl e
          | Inr kept \<Rightarrow> Inr (if c \<noteq> JStr ellipsis then m # kept else kept)))"

text \<open>
  Where \<open>sendMessage\<close> stands when it first gives up control: it has returned at line
  153, an exception has left it before the \<open>try\<close>, it is suspended at the \<open>await\<close> of
  line 167 with the request issued, or an exception inside the \<open>try\<close> has entered the
  \<open>catch\<close> of line 180 before any request was issued (which does not happen:
  \<open>sendMessage_not_caught\<close> below).
\<close>

datatype progress =
    Returned
  | Threw js_error
  | Awaiting request
  | Caught js_error

text \<open>Lines 151-170: \<open>sendMessage\<close> up to the \<open>await\<close>.\<close>

definition sendMessage :: "client \<Rightarrow> client \<times> progress" where
  "sendMessage st =
     (let raw = js_trim (inputValue st) in
      if raw = [] then (st, Returned)
      else
        let st1 = st\<lparr>inputValue := []\<rparr> in
        case loadHistory st1 of
          Inl e \<Rightarrow> (st1, Threw e)
        | Inr loaded \<Rightarrow>
           (case push loaded (js_message (js ''user'') raw) of
              Inl e \<Rightarrow> (st1, Threw e)
            | Inr history1 \<Rightarrow>
               (case renderMessages history1 st1 of
                  (st2, Some e) \<Rightarrow> (st2, Threw e)
                | (st2, None) \<Rightarrow>
                   let st3 = saveHistory history1 st2 in
                   (case push history1 typingPlaceholder of
                      Inl e \<Rightarrow> (st3, Threw e)
                    | Inr history2 \<Rightarrow>
                       (case renderMessages history2 st3 of
                          (st4, Some e) \<Rightarrow> (st4, Threw e)
                        | (st4, None) \<Rightarrow>
                           (case history2 of
                              JArr ms \<Rightarrow>
                                (case filter_placeholder ms of
                                   Inl e \<Rightarrow> (st4, Caught e)
                                 | Inr kept \<Rightarrow>
                                    let req = \<lparr>url = apiBase, http_method = js ''POST'',
                                               content_type = js ''application/json'',
                                               body = (case stringify (JObj [(js ''messages'', JArr kept)]) of
                                                         None \<Rightarrow> js ''undefined''
                                                       | Some t \<Rightarrow> t)\<rparr>
                                    in (st4\<lparr>requests := requests st4 @ [req]\<rparr>, Awaiting req))
                            | _ \<Rightarrow> (st4, Caught TypeError)))))))"

subsection \<open>The entries the conversion keeps\<close>

text \<open>
  What the loop of lines 220-225 computes when every entry is a \<open>dict\<close>: the entries
  whose role is \<open>user\<close> or \<open>assistant\<close> and whose content is a string, in order, each
  reduced to its role and content.
\<close>

fun entry :: "pyval \<Rightarrow> string \<Rightarrow> pyval" where
  "entry (PDict kvs) k = (case map_of kvs (py k) of None \<Rightarrow> PNone | Some v \<Rightarrow> v)"
| "entry _ k = PNone"

fun is_dict :: "pyval \<Rightarrow> bool" where
  "is_dict (PDict _) = True"
| "is_dict _ = False"

definition kept :: "pyval \<Rightarrow> bool" where
  "kept m \<longleftrightarrow>
     (entry m ''role'' = PStr (py ''user'') \<or> entry m ''role'' = PStr (py ''assistant'')) \<and>
     isinstance_str (entry m ''content'')"

subsection \<open>The markup the renderer itself writes\<close>

text \<open>
  The three tags that \<open>linkify\<close> and the newline replacement insert. \<open>tags_only s\<close>: every
  \<open><\<close> of \<open>s\<close> starts one of them.
\<close>

definition renderer_tag :: "jsstr \<Rightarrow> bool" where
  "renderer_tag s \<longleftrightarrow>
     prefix (js ''<a href=\"'') s \<or> prefix (js ''</a>'') s \<or> prefix (js ''<br>'') s"

fun tags_only :: "jsstr \<Rightarrow> bool" where
  "tags_only [] = True"
| "tags_only (c # r) = ((if c = 0x3C then renderer_tag (c # r) else True) \<and> tags_only r)"

subsection \<open>Histories of messages\<close>

text \<open>
  A history whose entries are messages, each given by its role and its content, as the
  array of objects the script builds; and the text \<open>JSON.stringify\<close> writes for one
  message.
\<close>

definition message_text :: "jsstr \<times> jsstr \<Rightarrow> jsstr" where
  "message_text m =
     [0x7B] @ quote (js ''role'') @ [0x3A] @ quote (fst m) @ [0x2C] @
     quote (js ''content'') @ [0x3A] @ quote (snd m) @ [0x7D]"

definition history_value :: "(jsstr \<times> jsstr) list \<Rightarrow> jsval" where
  "history_value h = JArr (map (\<lambda>m. js_message (fst m) (snd m)) h)"

section \<open>Literals\<close>

text \<open>Different literals of the source are different strings.\<close>

lemma py_eq_iff: "py a = py b \<longleftrightarrow> a = b"
  unfolding py_def by (simp add: inj_map_eq_map inj_on_def)

lemma unat_js_char: "unat (of_char c :: jschar) = of_char c"
proof -
  have "(of_char c :: nat) < 256"
    by (metis of_char_mod_256 mod_less_divisor zero_less_numeral)
  then have "(of_char c :: nat) < 65536" by linarith
  then have "(of_char c :: nat) < 2 ^ LENGTH(16)" by simp
  then have "unat (of_nat (of_char c) :: jschar) = of_char c"
    by (simp add: unat_of_nat del: of_nat_of_char)
  then show ?thesis by (simp add: of_nat_of_char)
qed

lemma js_char_eq_iff: "(of_char c :: jschar) = of_char d \<longleftrightarrow> c = d"
proof
  assume "(of_char c :: jschar) = of_char d"
  then have "unat (of_char c :: jschar) = unat (of_char d :: jschar)" by simp
  then show "c = d" by (simp add: unat_js_char)
qed simp

lemma js_eq_iff: "js a = js b \<longleftrightarrow> a = b"
  unfolding js_def by (simp add: inj_map_eq_map inj_on_def js_char_eq_iff)

section \<open>Properties of the chat endpoint\<close>

subsection \<open>The conversion loop on lists of objects\<close>

lemma convert_dicts:
  "list_all is_dict ms \<Longrightarrow>
   convert acc ms =
     Inr (acc @ map (\<lambda>m. message (entry m ''role'') (entry m ''content'')) (filter kept ms))"
proof (induction ms arbitrary: acc)
  case Nil
  then show ?case by simp
next
  case (Cons m ms)
  then obtain kvs where m: "m = PDict kvs" by (cases m) auto
  from Cons show ?case
    by (simp add: m kept_def dropped_def)
qed

lemma prepare_dicts:
  assumes "py_get data (py ''messages'') (PList []) = Inr (PList ms)" and "list_all is_dict ms"
  shows "prepare cfg data =
           Inr \<lparr>req_model = model cfg,
                req_messages = system_message #
                  map (\<lambda>m. message (entry m ''role'') (entry m ''content'')) (filter kept ms),
                req_max_tokens = 512, req_temperature = 7 / 10\<rparr>"
  using assms by (simp add: prepare_def convert_dicts)

subsection \<open>Claims\<close>

text \<open>
  C1. The claim: for every list \<open>messages\<close> the upstream request is the system message
  followed by the entries with role \<open>user\<close> or \<open>assistant\<close> and string content, every
  other entry being dropped. The handler does so for lists of objects
  (\<open>prepare_dicts\<close>), but an entry that is not an object is not dropped: \<open>m.get\<close> raises
  \<open>AttributeError\<close> outside the \<open>try\<close>, no upstream request is built and the handler
  ends with an unhandled exception. Here the body is \<open>{"messages": [1]}\<close>.
\<close>

theorem chat_non_object_entry_raises:
  "chat cfg up (PDict [(py ''messages'', PList [PInt 1])]) =
     \<lparr>result = Unhandled (no_attribute (PInt 1) ''get''), upstream_calls = [],
      requests_sent = []\<rparr>"
  by (simp add: chat_def prepare_def)

text \<open>
  C3. When \<open>messages\<close> is present in the body and is not a list, the handler answers
  400 with \<open>{"error": "invalid messages"}\<close> and makes no upstream call.
\<close>

theorem chat_invalid_messages:
  assumes "map_of kvs (py ''messages'') = Some m" and "\<not> isinstance_list m"
  shows "chat cfg up (PDict kvs) =
           \<lparr>result = Response 400 (PDict [(py ''error'', PStr (py ''invalid messages''))]),
            upstream_calls = [], requests_sent = []\<rparr>"
  using assms by (simp add: chat_def prepare_def)

theorem chat_invalid_messages_witness:
  "map_of [(py ''messages'', PStr (py ''not-a-list''))] (py ''messages'') = Some (PStr (py ''not-a-list'')) \<and>
   \<not> isinstance_list (PStr (py ''not-a-list'')) \<and>
   chat \<lparr>api_key = py ''sk-test'', model = py ''gpt-4o-mini''\<rparr> (\<lambda>req n. No_response [])
        (PDict [(py ''messages'', PStr (py ''not-a-list''))]) =
     \<lparr>result = Response 400 (PDict [(py ''error'', PStr (py ''invalid messages''))]),
      upstream_calls = [], requests_sent = []\<rparr>"
  using chat_invalid_messages
          [of "[(py ''messages'', PStr (py ''not-a-list''))]" "PStr (py ''not-a-list'')"
              "\<lparr>api_key = py ''sk-test'', model = py ''gpt-4o-mini''\<rparr>" "\<lambda>req n. No_response []"]
  by simp






text \<open>
  C9. When the body is an object without \<open>messages\<close>, the handler does not fail
  validation: it builds the request whose messages are the system message alone, and
  sends it.
\<close>

theorem chat_messages_absent:
  assumes "map_of kvs (py ''messages'') = None"
  shows "prepare cfg (PDict kvs) =
           Inr \<lparr>req_model = model cfg, req_messages = [system_message],
                req_max_tokens = 512, req_temperature = 7 / 10\<rparr> \<and>
         upstream_calls (chat cfg up (PDict kvs)) =
           [\<lparr>req_model = model cfg, req_messages = [system_message],
             req_max_tokens = 512, req_temperature = 7 / 10\<rparr>]"
  using assms by (simp add: chat_def prepare_def)

theorem chat_messages_absent_witness:
  "map_of [(py ''other'', PInt 1)] (py ''messages'') = None \<and>
   prepare \<lparr>api_key = py ''sk-test'', model = py ''gpt-4o-mini''\<rparr> (PDict [(py ''other'', PInt 1)]) =
     Inr \<lparr>req_model = py ''gpt-4o-mini'', req_messages = [system_message],
          req_max_tokens = 512, req_temperature = 7 / 10\<rparr> \<and>
   upstream_calls (chat \<lparr>api_key = py ''sk-test'', model = py ''gpt-4o-mini''\<rparr>
                        (\<lambda>req n. Completed (Completion [Some (py ''hello'')]))
                        (PDict [(py ''other'', PInt 1)])) =
     [\<lparr>req_model = py ''gpt-4o-mini'', req_messages = [system_message],
       req_max_tokens = 512, req_temperature = 7 / 10\<rparr>]"
proof -
  have a: "map_of [(py ''other'', PInt 1)] (py ''messages'') = None"
    by (simp add: py_def)
  from chat_messages_absent [OF a, of "\<lparr>api_key = py ''sk-test'', model = py ''gpt-4o-mini''\<rparr>"
                                    "\<lambda>req n. Completed (Completion [Some (py ''hello'')])"] a
  show ?thesis by simp
qed

text \<open>
  C10. A body that is valid JSON but not an object, such as \<open>[1]\<close> or \<open>"x"\<close>: the access
  \<open>data.get\<close> raises \<open>AttributeError\<close> before validation, the exception is not handled,
  no upstream call is made, and no response of the handler's own is produced.
\<close>

theorem chat_non_object_body_raises:
  "chat cfg up (PList [PInt 1]) =
     \<lparr>result = Unhandled (no_attribute (PList [PInt 1]) ''get''), upstream_calls = [],
      requests_sent = []\<rparr> \<and>
   chat cfg up (PStr (py ''x'')) =
     \<lparr>result = Unhandled (no_attribute (PStr (py ''x'')) ''get''), upstream_calls = [],
      requests_sent = []\<rparr>"
  by (simp add: chat_def prepare_def)

section \<open>Properties of the client\<close>

subsection \<open>Rendering\<close>

lemma renderer_tag_append: "renderer_tag s \<Longrightarrow> renderer_tag (s @ t)"
  by (auto simp: renderer_tag_def intro: prefix_prefix)

lemma tags_only_append: "tags_only xs \<Longrightarrow> tags_only ys \<Longrightarrow> tags_only (xs @ ys)"
proof (induction xs)
  case Nil thus ?case by simp
next
  case (Cons c r)
  thus ?case using renderer_tag_append[of "c # r" ys] by (simp split: if_splits)
qed

lemma tags_only_no_lt: "0x3C \<notin> set s \<Longrightarrow> tags_only s"
  by (induction s) auto

lemma tags_only_split: "tags_only (ps @ 0x3C # ss) \<Longrightarrow> renderer_tag (0x3C # ss)"
  by (induction ps) (auto split: if_splits)

lemma escape_char_no_markup: "x \<in> set (escape_char c) \<Longrightarrow> x \<notin> {0x3C, 0x3E, 0x22, 0x27}"
  by (auto simp: escape_char_def js_def split: if_splits)

lemma escapeHtml_no_markup: "x \<in> set (escapeHtml s) \<Longrightarrow> x \<notin> {0x3C, 0x3E, 0x22, 0x27}"
  unfolding escapeHtml_def using escape_char_no_markup by (induction s) fastforce+

lemma match_url_set: "match_url s = Some (u, r) \<Longrightarrow> set u \<subseteq> set s \<and> set r \<subseteq> set s"
proof -
  assume m: "match_url s = Some (u, r)"
  define n :: nat where "n = (if prefix (js ''https://'') s then 8 else if prefix (js ''http://'') s then 7 else 0)"
  from m have u: "u = take n s @ takeWhile non_space (drop n s)" and r: "r = dropWhile non_space (drop n s)"
    by (simp_all add: match_url_def Let_def n_def split: if_splits)
  have 1: "set (take n s) \<subseteq> set s" by (rule set_take_subset)
  have 2: "set (takeWhile non_space (drop n s)) \<subseteq> set (drop n s)" using set_takeWhileD by fast
  have 3: "set (dropWhile non_space (drop n s)) \<subseteq> set (drop n s)" using set_dropWhileD by fast
  have 4: "set (drop n s) \<subseteq> set s" by (rule set_drop_subset)
  from 1 2 3 4 show ?thesis unfolding u r set_append by blast
qed

lemma tags_only_anchor: "0x3C \<notin> set u \<Longrightarrow> tags_only (anchor u)"
proof -
  assume u: "0x3C \<notin> set u"
  have "tags_only (js ''<a href=\"'')" "tags_only (js ''\" target=\"_blank\" rel=\"noopener\">'')"
    "tags_only (js ''</a>'')"
    by (simp_all add: js_def renderer_tag_def)
  with tags_only_no_lt[OF u] show ?thesis
    unfolding anchor_def by (intro tags_only_append)
qed

lemma tags_only_linkify: "0x3C \<notin> set s \<Longrightarrow> tags_only (linkify s)"
proof (induction s rule: linkify.induct)
  case 1 thus ?case by simp
next
  case (2 c cs)
  show ?case
  proof (cases "match_url (c # cs)")
    case None
    with 2 have "tags_only (linkify cs)" and "c \<noteq> 0x3C" by auto
    with None show ?thesis by simp
  next
    case (Some p)
    obtain u r where p: "p = (u, r)" by (cases p)
    from match_url_set[of "c # cs" u r] Some p 2(3)
    have "0x3C \<notin> set u" "0x3C \<notin> set r" by auto
    with 2(2)[OF Some p[symmetric]] have "tags_only (anchor u)" "tags_only (linkify r)"
      by (auto intro: tags_only_anchor)
    with Some p show ?thesis by (simp add: tags_only_append)
  qed
qed

lemma replace_newlines_append: "replace_newlines (xs @ ys) = replace_newlines xs @ replace_newlines ys"
  by (simp add: replace_newlines_def)

lemma renderer_tag_replace_newlines:
  "renderer_tag s \<Longrightarrow> renderer_tag (replace_newlines s)"
proof -
  assume "renderer_tag s"
  then obtain t r where s: "s = t @ r" and t: "t \<in> {js ''<a href=\"'', js ''</a>'', js ''<br>''}"
    by (auto simp: renderer_tag_def prefix_def)
  from t have "replace_newlines t = t" by (auto simp: replace_newlines_def js_def)
  moreover from t have "renderer_tag t" by (auto simp: renderer_tag_def)
  ultimately show ?thesis unfolding s replace_newlines_append by (simp add: renderer_tag_append)
qed

lemma tags_only_replace_newlines: "tags_only s \<Longrightarrow> tags_only (replace_newlines s)"
proof (induction s)
  case Nil thus ?case by (simp add: replace_newlines_def)
next
  case (Cons c r)
  then have ih: "tags_only (replace_newlines r)" by simp
  have step: "replace_newlines (c # r) = (if c = 0x0A then js ''<br>'' else [c]) @ replace_newlines r"
    by (simp add: replace_newlines_def)
  show ?case
  proof (cases "c = 0x3C")
    case True
    with Cons.prems have "renderer_tag (c # r)" by simp
    then have "renderer_tag (replace_newlines (c # r))" by (rule renderer_tag_replace_newlines)
    with True ih step show ?thesis by simp
  next
    case False
    have "tags_only (if c = 0x0A then js ''<br>'' else [c])"
      using False by (simp add: js_def renderer_tag_def)
    then show ?thesis unfolding step using ih by (rule tags_only_append)
  qed
qed

lemma tags_only_render_content: "tags_only (render_content c)"
proof -
  have "0x3C \<notin> set (escapeHtml c)" using escapeHtml_no_markup[of "0x3C" c] by auto
  then show ?thesis unfolding render_content_def
    by (intro tags_only_replace_newlines tags_only_linkify)
qed

lemma no_script_tag: "tags_only s \<Longrightarrow> \<not> sublist (js ''<script'') s"
proof
  assume t: "tags_only s" and "sublist (js ''<script'') s"
  then obtain ps ss where "s = ps @ js ''<script'' @ ss" by (auto simp: sublist_def)
  then have "s = ps @ 0x3C # (js ''script'' @ ss)" by (simp add: js_def)
  with tags_only_split[of ps "js ''script'' @ ss"] t have "renderer_tag (0x3C # (js ''script'' @ ss))" by simp
  then show False by (simp add: renderer_tag_def js_def)
qed

subsection \<open>What each stage of the rendering does\<close>

text \<open>
  \<open>escapeHtml\<close> works character by character and keeps white space, colons and the
  schemes of URLs.
\<close>

lemma escapeHtml_append: "escapeHtml (a @ b) = escapeHtml a @ escapeHtml b"
  by (simp add: escapeHtml_def)

lemma escapeHtml_table:
  "escapeHtml [0x26] = js ''&amp;''" "escapeHtml [0x3C] = js ''&lt;''" "escapeHtml [0x3E] = js ''&gt;''"
  "escapeHtml [0x22] = js ''&quot;''" "escapeHtml [0x27] = js ''&#039;''"
  "x \<notin> {0x26, 0x3C, 0x3E, 0x22, 0x27} \<Longrightarrow> escapeHtml [x] = [x]"
  by (simp_all add: escapeHtml_def escape_char_def)

lemma escape_char_keeps:
  assumes "y \<in> set (escape_char x)"
  shows "y = x \<or> y \<in> set (js ''&amp;lt;gt;quot;#039;'')"
  using assms by (auto simp: escape_char_def js_def split: if_splits)

lemma escapeHtml_keeps:
  assumes "y \<in> set (escapeHtml s)"
  shows "y \<in> set s \<or> y \<in> set (js ''&amp;lt;gt;quot;#039;'')"
  using assms escape_char_keeps unfolding escapeHtml_def by fastforce

lemma escapeHtml_non_space: "list_all non_space t \<Longrightarrow> list_all non_space (escapeHtml t)"
proof -
  assume a: "list_all non_space t"
  have "non_space y" if "y \<in> set (escapeHtml t)" for y
  proof -
    from escapeHtml_keeps[OF that] show ?thesis
    proof
      assume "y \<in> set t" with a show ?thesis by (simp add: list_all_iff)
    next
      assume "y \<in> set (js ''&amp;lt;gt;quot;#039;'')"
      then show ?thesis by (auto simp: js_def non_space_def js_whitespace_def)
    qed
  qed
  then show ?thesis by (simp add: list_all_iff)
qed

lemma escapeHtml_no_colon: "0x3A \<notin> set t \<Longrightarrow> 0x3A \<notin> set (escapeHtml t)"
  using escapeHtml_keeps[of "0x3A" t] by (auto simp: js_def)

lemma escapeHtml_no_newline: "0x0A \<notin> set t \<Longrightarrow> 0x0A \<notin> set (escapeHtml t)"
  using escapeHtml_keeps[of "0x0A" t] by (auto simp: js_def)

lemma escapeHtml_empty: "escapeHtml t = [] \<longleftrightarrow> t = []"
proof (cases t)
  case Nil then show ?thesis by (simp add: escapeHtml_def)
next
  case (Cons x xs)
  have "escape_char x \<noteq> []" by (simp add: escape_char_def js_def)
  with Cons show ?thesis by (simp add: escapeHtml_def)
qed

lemma escapeHtml_space: "js_whitespace w \<Longrightarrow> escapeHtml [w] = [w]"
  by (auto simp: escapeHtml_def escape_char_def js_whitespace_def)

lemma escapeHtml_scheme:
  "escapeHtml (js ''http://'') = js ''http://''" "escapeHtml (js ''https://'') = js ''https://''"
  by (simp_all add: escapeHtml_def escape_char_def js_def)

text \<open>
  A match of the URL pattern never extends over white space, and none starts inside a
  text without a colon: \<open>linkify\<close> works on each stretch between white space by itself,
  leaves a text without a colon as it is, and wraps \<open>http://\<close> or \<open>https://\<close> followed
  by a non-empty run without white space in an anchor.
\<close>

lemma takeWhile_before: "\<not> P w \<Longrightarrow> takeWhile P (x @ w # b) = takeWhile P x"
  by (induction x) auto

lemma dropWhile_before: "\<not> P w \<Longrightarrow> dropWhile P (x @ w # b) = dropWhile P x @ w # b"
  by (induction x) auto

lemma prefix_before:
  assumes "w \<notin> set p"
  shows "prefix p (a @ w # b) \<longleftrightarrow> prefix p a"
proof
  assume "prefix p a" then show "prefix p (a @ w # b)" by (rule prefix_prefix)
next
  assume "prefix p (a @ w # b)"
  then consider "prefix p a" | us where "p = a @ us" "prefix us (w # b)"
    by (auto simp: prefix_append)
  then show "prefix p a"
  proof cases
    case 1 then show ?thesis .
  next
    case 2
    with assms have "us = []" by (cases us) auto
    with 2 show ?thesis by simp
  qed
qed

lemma match_url_before:
  assumes "js_whitespace w"
  shows "match_url (a @ w # b) = map_option (\<lambda>(u, r). (u, r @ w # b)) (match_url a)"
proof -
  have w: "w \<notin> set (js ''https://'')" "w \<notin> set (js ''http://'')"
    using assms by (auto simp: js_def js_whitespace_def)
  define n :: nat where
    "n = (if prefix (js ''https://'') a then 8 else if prefix (js ''http://'') a then 7 else 0)"
  have n': "(if prefix (js ''https://'') (a @ w # b) then 8
             else if prefix (js ''http://'') (a @ w # b) then 7 else 0) = n"
    unfolding n_def prefix_before[OF w(1)] prefix_before[OF w(2)] ..
  have len: "n \<le> length a"
    unfolding n_def by (auto dest!: prefix_length_le simp: js_def)
  have nw: "\<not> non_space w" using assms by (simp add: non_space_def)
  from len have d: "drop n (a @ w # b) = drop n a @ w # b" and t: "take n (a @ w # b) = take n a"
    by simp_all
  show ?thesis
    unfolding match_url_def n' n_def[symmetric] Let_def d t
    using nw by (simp add: takeWhile_before[of non_space w] dropWhile_before[of non_space w])
qed

lemma linkify_space:
  assumes "js_whitespace w"
  shows "linkify (a @ w # b) = linkify a @ w # linkify b"
proof (induction a rule: linkify.induct)
  case 1
  have "match_url (w # b) = None"
    using assms by (auto simp: match_url_def Let_def js_def js_whitespace_def)
  then show ?case by simp
next
  case (2 c cs)
  show ?case
  proof (cases "match_url (c # cs)")
    case None
    with 2(1) match_url_before[OF assms, of "c # cs" b] show ?thesis by simp
  next
    case (Some p)
    obtain u r where p: "p = (u, r)" by (cases p)
    from 2(2)[OF Some p[symmetric]] have "linkify (r @ w # b) = linkify r @ w # linkify b" .
    with Some p match_url_before[OF assms, of "c # cs" b] show ?thesis by simp
  qed
qed

lemma scheme_colon:
  assumes "prefix (js ''https://'') x \<or> prefix (js ''http://'') x"
  shows "0x3A \<in> set x"
proof -
  from assms obtain z where "x = js ''https://'' @ z \<or> x = js ''http://'' @ z"
    by (auto simp: prefix_def)
  then show ?thesis by (auto simp: js_def)
qed

lemma match_url_no_colon: "0x3A \<notin> set x \<Longrightarrow> match_url x = None"
  using scheme_colon[of x] by (auto simp: match_url_def Let_def)

lemma scheme_after_plain:
  assumes "0x3A \<notin> set q" and "q \<noteq> []"
  shows "\<not> prefix (js ''https://'') (q @ 0x68 # y)" and "\<not> prefix (js ''http://'') (q @ 0x68 # y)"
proof -
  have no: "\<not> prefix p (q @ 0x68 # y)"
    if p: "p = js ''https://'' \<or> p = js ''http://''" for p
  proof
    assume "prefix p (q @ 0x68 # y)"
    then consider "prefix p q" | us where "p = q @ us" "prefix us (0x68 # y)"
      by (auto simp: prefix_append)
    then show False
    proof cases
      case 1
      then have "set p \<subseteq> set q" by (auto simp: prefix_def)
      moreover from p have "0x3A \<in> set p" by (auto simp: js_def)
      ultimately show False using assms(1) by auto
    next
      case 2
      show False
      proof (cases us)
        case Nil
        with 2 have "p = q" by simp
        moreover from p have "0x3A \<in> set p" by (auto simp: js_def)
        ultimately show False using assms(1) by simp
      next
        case (Cons u us')
        with 2 have u: "u = 0x68" by simp
        from 2(1) Cons u have "p = q @ 0x68 # us'" by simp
        with assms(2) obtain c q' where "p = c # q' @ 0x68 # us'" by (cases q) auto
        then have "0x68 \<in> set (tl p)" by simp
        with p show False by (auto simp: js_def)
      qed
    qed
  qed
  from no show "\<not> prefix (js ''https://'') (q @ 0x68 # y)" by simp
  from no show "\<not> prefix (js ''http://'') (q @ 0x68 # y)" by simp
qed

lemma match_url_after_plain:
  "0x3A \<notin> set q \<Longrightarrow> q \<noteq> [] \<Longrightarrow> match_url (q @ 0x68 # y) = None"
  using scheme_after_plain[of q y] by (simp add: match_url_def Let_def)

lemma linkify_plain_prefix:
  "0x3A \<notin> set p \<Longrightarrow> linkify (p @ 0x68 # y) = p @ linkify (0x68 # y)"
proof (induction p)
  case Nil
  show ?case by simp
next
  case (Cons c p)
  from Cons.prems have "match_url ((c # p) @ 0x68 # y) = None"
    by (intro match_url_after_plain) simp_all
  with Cons show ?case by simp
qed

lemma linkify_plain: "0x3A \<notin> set t \<Longrightarrow> linkify t = t"
proof (induction t)
  case Nil
  show ?case by simp
next
  case (Cons c t)
  from Cons.prems have "match_url (c # t) = None" by (rule match_url_no_colon)
  with Cons show ?case by simp
qed

lemma linkify_url:
  assumes "s = js ''https://'' \<or> s = js ''http://''" and "t \<noteq> []" and "list_all non_space t"
  shows "linkify (s @ t) = anchor (s @ t)"
proof -
  from assms(3) have tw: "takeWhile non_space t = t" and dw: "dropWhile non_space t = []"
    by (simp_all add: list_all_iff)
  from assms(1) have "match_url (s @ t) = Some (s @ t, [])"
  proof
    assume s: "s = js ''https://''"
    have "prefix (js ''https://'') (s @ t)" "length s = 8" by (simp_all add: s js_def)
    then show ?thesis using assms(2) by (simp add: match_url_def tw dw)
  next
    assume s: "s = js ''http://''"
    have "prefix (js ''http://'') (s @ t)" "\<not> prefix (js ''https://'') (s @ t)" "length s = 7"
      by (simp_all add: s js_def)
    then show ?thesis using assms(2) by (simp add: match_url_def tw dw)
  qed
  moreover obtain c cs where "s @ t = c # cs" using assms(1) by (cases s) (auto simp: js_def)
  ultimately show ?thesis by simp
qed

lemma replace_newlines_none: "0x0A \<notin> set x \<Longrightarrow> replace_newlines x = x"
  by (induction x) (auto simp: replace_newlines_def)

lemma replace_newlines_anchor: "0x0A \<notin> set u \<Longrightarrow> replace_newlines (anchor u) = anchor u"
  by (rule replace_newlines_none) (auto simp: anchor_def js_def)

lemma render_content_space:
  assumes "js_whitespace w"
  shows "render_content (a @ w # b) =
           render_content a @ (if w = 0x0A then js ''<br>'' else [w]) @ render_content b"
proof -
  have "escapeHtml (a @ w # b) = escapeHtml a @ w # escapeHtml b"
    using escapeHtml_append[of a "[w] @ b"] escapeHtml_append[of "[w]" b] escapeHtml_space[OF assms]
    by simp
  then show ?thesis
    unfolding render_content_def
    by (simp add: linkify_space[OF assms] replace_newlines_append)
       (simp add: replace_newlines_def)
qed

lemma newline_space: "js_whitespace 0x0A"
  by (simp add: js_whitespace_def)

lemma non_space_no_newline: "list_all non_space t \<Longrightarrow> 0x0A \<notin> set t"
proof
  assume "list_all non_space t" and "0x0A \<in> set t"
  then have "non_space 0x0A" by (simp add: list_all_iff)
  with newline_space show False by (simp add: non_space_def)
qed

lemma render_content_plain:
  assumes "0x3A \<notin> set t" and "0x0A \<notin> set t"
  shows "render_content t = escapeHtml t"
proof -
  have "linkify (escapeHtml t) = escapeHtml t"
    by (rule linkify_plain[OF escapeHtml_no_colon[OF assms(1)]])
  moreover have "replace_newlines (escapeHtml t) = escapeHtml t"
    by (rule replace_newlines_none[OF escapeHtml_no_newline[OF assms(2)]])
  ultimately show ?thesis by (simp only: render_content_def)
qed

lemma render_content_url:
  assumes "0x3A \<notin> set p" and "0x0A \<notin> set p"
    and "s = js ''https://'' \<or> s = js ''http://''" and "t \<noteq> []" and "list_all non_space t"
  shows "render_content (p @ s @ t) = escapeHtml p @ anchor (s @ escapeHtml t)"
proof -
  from assms(3) have es: "escapeHtml s = s" using escapeHtml_scheme by auto
  from assms(3) obtain s' where s: "s = 0x68 # s'" by (auto simp: js_def)
  have e: "escapeHtml (p @ s @ t) = escapeHtml p @ s @ escapeHtml t"
    by (simp add: escapeHtml_append es)
  have t1: "escapeHtml t \<noteq> []" using assms(4) by (simp add: escapeHtml_empty)
  have t2: "list_all non_space (escapeHtml t)" by (rule escapeHtml_non_space[OF assms(5)])
  have "linkify (escapeHtml p @ s @ escapeHtml t) = escapeHtml p @ linkify (s @ escapeHtml t)"
    using linkify_plain_prefix[OF escapeHtml_no_colon[OF assms(1)], of "s' @ escapeHtml t"]
    by (simp add: s)
  also have "\<dots> = escapeHtml p @ anchor (s @ escapeHtml t)"
    by (simp only: linkify_url[OF assms(3) t1 t2])
  finally have l: "linkify (escapeHtml (p @ s @ t)) = escapeHtml p @ anchor (s @ escapeHtml t)"
    unfolding e .
  have "0x0A \<notin> set s" using assms(3) by (auto simp: js_def)
  with non_space_no_newline[OF t2] have "0x0A \<notin> set (s @ escapeHtml t)" by simp
  then have a: "replace_newlines (anchor (s @ escapeHtml t)) = anchor (s @ escapeHtml t)"
    by (rule replace_newlines_anchor)
  have b: "replace_newlines (escapeHtml p) = escapeHtml p"
    by (rule replace_newlines_none[OF escapeHtml_no_newline[OF assms(2)]])
  show ?thesis
    by (simp only: render_content_def l replace_newlines_append a b)
qed

subsection \<open>The markup of a message element\<close>

text \<open>
  C4. For an entry whose content is the string \<open>c\<close>, the markup of the message element
  is the content escaped first, then linkified, then with newlines turned into line
  breaks. Escaping replaces each of \<open>&\<close>, \<open><\<close>, \<open>>\<close>, \<open>"\<close>, \<open>'\<close> by its entity and
  keeps every other character. On a content cut at white space the markup is the
  markup of the pieces, with \<open><br>\<close> for a newline and the white space itself
  otherwise; a piece without colon and newline is its escaped text; a piece made of a
  text without colon, \<open>http://\<close> or \<open>https://\<close>, and a non-empty run without white
  space is the escaped text followed by the anchor around the escaped URL, which links
  to it in a new tab. The
  escaped text contains none of \<open><\<close>, \<open>>\<close>, \<open>"\<close>, \<open>'\<close>; every \<open><\<close> of the markup
  starts a tag written by the renderer; so \<open><script\<close> does not occur in it.
\<close>

theorem rendering_escapes_first:
  assumes "property m (js ''content'') = Inr (JStr c)"
  shows "(\<exists>el. render_message m = Inr el
            \<and> innerHTML el = render_content c
            \<and> innerHTML el = replace_newlines (linkify (escapeHtml c))
            \<and> escapeHtml c = concat (map escape_char c)
            \<and> (\<forall>x \<in> set (escapeHtml c). x \<notin> {0x3C, 0x3E, 0x22, 0x27})
            \<and> (\<forall>ps ss. innerHTML el = ps @ 0x3C # ss \<longrightarrow> renderer_tag (0x3C # ss))
            \<and> \<not> sublist (js ''<script'') (innerHTML el))
         \<and> escapeHtml [0x26] = js ''&amp;'' \<and> escapeHtml [0x3C] = js ''&lt;''
         \<and> escapeHtml [0x3E] = js ''&gt;'' \<and> escapeHtml [0x22] = js ''&quot;''
         \<and> escapeHtml [0x27] = js ''&#039;''
         \<and> (\<forall>x. x \<notin> {0x26, 0x3C, 0x3E, 0x22, 0x27} \<longrightarrow> escapeHtml [x] = [x])
         \<and> (\<forall>a b. escapeHtml (a @ b) = escapeHtml a @ escapeHtml b)
         \<and> (\<forall>a w b. js_whitespace w \<longrightarrow>
                render_content (a @ w # b) =
                  render_content a @ (if w = 0x0A then js ''<br>'' else [w]) @ render_content b)
         \<and> (\<forall>t. 0x3A \<notin> set t \<and> 0x0A \<notin> set t \<longrightarrow> render_content t = escapeHtml t)
         \<and> (\<forall>p s t. 0x3A \<notin> set p \<and> 0x0A \<notin> set p \<and> (s = js ''https://'' \<or> s = js ''http://'') \<and>
                      t \<noteq> [] \<and> list_all non_space t \<longrightarrow>
                render_content (p @ s @ t) = escapeHtml p @ anchor (s @ escapeHtml t))
         \<and> (\<forall>u. anchor u =
                js ''<a href=\"'' @ u @ js ''\" target=\"_blank\" rel=\"noopener\">'' @ u @ js ''</a>'')"
proof -
  from assms obtain r where r: "property m (js ''role'') = Inr r"
    by (cases m) auto
  define el where
    "el = \<lparr>className = js ''msg '' @ (if r = JStr (js ''user'') then js ''user'' else js ''bot''),
           meta = (if r = JStr (js ''user'') then js ''You'' else js ''Assistant''),
           innerHTML = render_content c\<rparr>"
  have 1: "render_message m = Inr el"
    using assms r by (simp add: render_message_def el_def)
  have 2: "innerHTML el = render_content c" by (simp add: el_def)
  have t: "tags_only (innerHTML el)"
    using tags_only_render_content[of c] by (simp add: el_def)
  have 3: "\<forall>ps ss. innerHTML el = ps @ 0x3C # ss \<longrightarrow> renderer_tag (0x3C # ss)"
    using t tags_only_split by metis
  have 4: "\<forall>x \<in> set (escapeHtml c). x \<notin> {0x3C, 0x3E, 0x22, 0x27}"
    using escapeHtml_no_markup[of _ c] by blast
  have first: "\<exists>el. render_message m = Inr el
            \<and> innerHTML el = render_content c
            \<and> innerHTML el = replace_newlines (linkify (escapeHtml c))
            \<and> escapeHtml c = concat (map escape_char c)
            \<and> (\<forall>x \<in> set (escapeHtml c). x \<notin> {0x3C, 0x3E, 0x22, 0x27})
            \<and> (\<forall>ps ss. innerHTML el = ps @ 0x3C # ss \<longrightarrow> renderer_tag (0x3C # ss))
            \<and> \<not> sublist (js ''<script'') (innerHTML el)"
    using 1 2 3 4 no_script_tag[OF t]
    by (intro exI[of _ el] conjI) (simp_all add: render_content_def escapeHtml_def)
  have url: "\<forall>p s t. 0x3A \<notin> set p \<and> 0x0A \<notin> set p \<and> (s = js ''https://'' \<or> s = js ''http://'') \<and>
                      t \<noteq> [] \<and> list_all non_space t \<longrightarrow>
                render_content (p @ s @ t) = escapeHtml p @ anchor (s @ escapeHtml t)"
    using render_content_url by blast
  have plain: "\<forall>t. 0x3A \<notin> set t \<and> 0x0A \<notin> set t \<longrightarrow> render_content t = escapeHtml t"
    using render_content_plain by blast
  have space: "\<forall>a w b. js_whitespace w \<longrightarrow>
                render_content (a @ w # b) =
                  render_content a @ (if w = 0x0A then js ''<br>'' else [w]) @ render_content b"
    using render_content_space by blast
  have other: "\<forall>x. x \<notin> {0x26, 0x3C, 0x3E, 0x22, 0x27} \<longrightarrow> escapeHtml [x] = [x]"
    using escapeHtml_table(6) by blast
  have app: "\<forall>a b. escapeHtml (a @ b) = escapeHtml a @ escapeHtml b"
    using escapeHtml_append by blast
  have anc: "\<forall>u. anchor u =
                js ''<a href=\"'' @ u @ js ''\" target=\"_blank\" rel=\"noopener\">'' @ u @ js ''</a>''"
    by (simp add: anchor_def)
  from first escapeHtml_table(1-5) other app space plain url anc show ?thesis
    by (intro conjI)
qed

theorem rendering_escapes_first_witness:
  "property (js_message (js ''user'') (js ''a&b http://x.y/?q=1&r=<2>'' @ 0x0A # js ''<script>''))
     (js ''content'') =
     Inr (JStr (js ''a&b http://x.y/?q=1&r=<2>'' @ 0x0A # js ''<script>'')) \<and>
   render_message (js_message (js ''user'') (js ''a&b http://x.y/?q=1&r=<2>'' @ 0x0A # js ''<script>'')) =
     Inr \<lparr>className = js ''msg user'', meta = js ''You'',
          innerHTML =
            js ''a&amp;b <a href=\"http://x.y/?q=1&amp;r=&lt;2&gt;\" target=\"_blank\" rel=\"noopener\">'' @
            js ''http://x.y/?q=1&amp;r=&lt;2&gt;</a><br>&lt;script&gt;''\<rparr> \<and>
   js_whitespace 0x20 \<and> js_whitespace 0x0A \<and>
   render_content (js ''a&b http://x.y/?q=1&r=<2>'' @ 0x0A # js ''<script>'') =
     render_content (js ''a&b'') @ [0x20] @ render_content (js ''http://x.y/?q=1&r=<2>'') @
     js ''<br>'' @ render_content (js ''<script>'') \<and>
   render_content (js ''a&b'') = js ''a&amp;b'' \<and>
   list_all non_space (js ''x.y/?q=1&r=<2>'') \<and>
   render_content (js ''http://x.y/?q=1&r=<2>'') = anchor (js ''http://x.y/?q=1&amp;r=&lt;2&gt;'') \<and>
   render_content (js ''<script>'') = js ''&lt;script&gt;''"
proof -
  let ?c = "js ''a&b http://x.y/?q=1&r=<2>'' @ 0x0A # js ''<script>''"
  let ?m = "js_message (js ''user'') ?c"
  have p: "property ?m (js ''content'') = Inr (JStr ?c)"
    by (simp add: js_message_def js_eq_iff)
  note th = rendering_escapes_first [OF p]
  from th have space: "\<And>a w b. js_whitespace w \<Longrightarrow>
       render_content (a @ w # b) =
         render_content a @ (if w = 0x0A then js ''<br>'' else [w]) @ render_content b"
    by blast
  from th have plain: "\<And>t. 0x3A \<notin> set t \<Longrightarrow> 0x0A \<notin> set t \<Longrightarrow> render_content t = escapeHtml t"
    by blast
  from th have url: "\<And>t. t \<noteq> [] \<Longrightarrow> list_all non_space t \<Longrightarrow>
       render_content (js ''http://'' @ t) = anchor (js ''http://'' @ escapeHtml t)"
    by (metis append_Nil empty_iff empty_set escapeHtml_def concat.simps(1) list.simps(8))
  have w1: "js_whitespace 0x20" and w2: "js_whitespace 0x0A"
    by (simp_all add: js_whitespace_def)
  have ns: "list_all non_space (js ''x.y/?q=1&r=<2>'')"
    by (simp add: js_def non_space_def js_whitespace_def)
  have e1: "escapeHtml (js ''a&b'') = js ''a&amp;b''"
    and e2: "escapeHtml (js ''x.y/?q=1&r=<2>'') = js ''x.y/?q=1&amp;r=&lt;2&gt;''"
    and e3: "escapeHtml (js ''<script>'') = js ''&lt;script&gt;''"
    by (simp_all add: escapeHtml_def escape_char_def js_def)
  have r1: "render_content (js ''a&b'') = js ''a&amp;b''"
    using plain[of "js ''a&b''"] e1 by (simp add: js_def)
  have r3: "render_content (js ''<script>'') = js ''&lt;script&gt;''"
    using plain[of "js ''<script>''"] e3 by (simp add: js_def)
  have r2: "render_content (js ''http://x.y/?q=1&r=<2>'') = anchor (js ''http://x.y/?q=1&amp;r=&lt;2&gt;'')"
    using url[OF _ ns] e2 by (simp add: js_def)
  have split: "?c = js ''a&b'' @ 0x20 # (js ''http://x.y/?q=1&r=<2>'' @ 0x0A # js ''<script>'')"
    by (simp add: js_def)
  have whole: "render_content ?c =
     render_content (js ''a&b'') @ [0x20] @ render_content (js ''http://x.y/?q=1&r=<2>'') @
     js ''<br>'' @ render_content (js ''<script>'')"
    unfolding split
    by (simp only: space[OF w1] space[OF w2]) simp
  from th obtain el where el: "render_message ?m = Inr el" "innerHTML el = render_content ?c"
    by blast
  have "render_message ?m = Inr \<lparr>className = js ''msg user'', meta = js ''You'',
          innerHTML = render_content ?c\<rparr>"
    using p by (simp add: render_message_def js_message_def js_eq_iff) (simp add: js_def)
  then have rm: "render_message ?m =
     Inr \<lparr>className = js ''msg user'', meta = js ''You'',
          innerHTML =
            js ''a&amp;b <a href=\"http://x.y/?q=1&amp;r=&lt;2&gt;\" target=\"_blank\" rel=\"noopener\">'' @
            js ''http://x.y/?q=1&amp;r=&lt;2&gt;</a><br>&lt;script&gt;''\<rparr>"
    unfolding whole r1 r2 r3 by (simp add: js_def anchor_def)
  from p rm w1 w2 whole r1 ns r2 r3 show ?thesis by (intro conjI)
qed

subsection \<open>The escapes of JSON.stringify are read back by JSON.parse\<close>

lemma hex_value_hex_digit: "n < 16 \<Longrightarrow> hex_value (hex_digit n) = Some n"
proof -
  assume "n < 16"
  then have "n \<in> set [0..<16]" by simp
  then have "n \<in> {0, 1, 2, 3, 4, 5, 6, 7, 8, 9, 10, 11, 12, 13, 14, 15}"
    by (auto simp: upt_rec)
  then show ?thesis
    by (elim insertE emptyE) (simp_all add: hex_digit_def hex_value_def is_digit_def)
qed

lemma nibbles:
  assumes "n < 65536"
  shows "((n div 4096 mod 16 * 16 + n div 256 mod 16) * 16 + n div 16 mod 16) * 16 + n mod 16 = (n::nat)"
proof -
  define q1 where "q1 = n div 16"
  define q2 where "q2 = q1 div 16"
  define q3 where "q3 = q2 div 16"
  have d2: "n div 256 = q2" unfolding q2_def q1_def by (simp add: div_mult2_eq)
  have d3: "n div 4096 = q3" unfolding q3_def q2_def q1_def by (simp add: div_mult2_eq)
  have "q3 < 16" using assms unfolding d3[symmetric] by simp
  then have e3: "q3 mod 16 = q3" by simp
  have e2: "q3 * 16 + q2 mod 16 = q2" unfolding q3_def by simp
  have e1: "q2 * 16 + q1 mod 16 = q1" unfolding q2_def by simp
  have e0: "q1 * 16 + n mod 16 = n" unfolding q1_def by simp
  have "((n div 4096 mod 16 * 16 + n div 256 mod 16) * 16 + n div 16 mod 16) * 16 + n mod 16
        = ((q3 * 16 + q2 mod 16) * 16 + q1 mod 16) * 16 + n mod 16"
    unfolding d2 d3 e3 q1_def ..
  also have "\<dots> = n" unfolding e2 e1 e0 ..
  finally show ?thesis .
qed

lemma hex4_unicode_escape:
  "hex4 (hex_digit (unat c div 4096 mod 16)) (hex_digit (unat c div 256 mod 16))
        (hex_digit (unat c div 16 mod 16)) (hex_digit (unat c mod 16)) = Some c"
proof -
  have "unat c < 2 ^ LENGTH(16)" by (rule unsigned_less)
  then have b: "unat c < 65536" by simp
  define N where "N = ((unat c div 4096 mod 16 * 16 + unat c div 256 mod 16) * 16 + unat c div 16 mod 16) * 16
          + unat c mod 16"
  have "hex4 (hex_digit (unat c div 4096 mod 16)) (hex_digit (unat c div 256 mod 16))
        (hex_digit (unat c div 16 mod 16)) (hex_digit (unat c mod 16)) = Some (of_nat N)"
    unfolding N_def hex4_def by (simp only: hex_value_hex_digit mod_less_divisor zero_less_numeral prod.case option.case)
  moreover have "N = unat c" unfolding N_def using nibbles[OF b] .
  ultimately show ?thesis by simp
qed

lemma parse_quote_unit:
  "parse_string_chars (quote_unit c @ t) = consed c (parse_string_chars t)"
  unfolding quote_unit_def unicode_escape_def
  by (simp add: simple_escape_def hex4_unicode_escape)

lemma parse_literal_unit:
  "0x20 \<le> c \<Longrightarrow> c \<noteq> 0x22 \<Longrightarrow> c \<noteq> 0x5C \<Longrightarrow>
   parse_string_chars (c # t) = consed c (parse_string_chars t)"
  by (auto dest: leD)

lemma surrogate_literal:
  assumes "high_surrogate c \<or> low_surrogate c"
  shows "0x20 \<le> c \<and> c \<noteq> 0x22 \<and> c \<noteq> 0x5C"
proof -
  from assms have "0xD800 \<le> unat c"
    unfolding high_surrogate_def low_surrogate_def by (auto simp: word_le_nat_alt)
  then have "0x20 \<le> unat c" "unat c \<noteq> 0x22" "unat c \<noteq> 0x5C" by simp_all
  then show ?thesis by (auto simp: word_le_nat_alt)
qed

lemma parse_quote_chars:
  "parse_string_chars (quote_chars s @ 0x22 # rest) = Some (s, rest)"
proof (induction s rule: quote_chars.induct)
  case 1
  show ?case by simp
next
  case (2 c)
  show ?case by (simp add: parse_quote_unit consed_def)
next
  case (3 c d r)
  show ?case
  proof (cases "high_surrogate c \<and> low_surrogate d")
    case True
    with surrogate_literal[of c] surrogate_literal[of d]
    have c: "0x20 \<le> c" "c \<noteq> 0x22" "c \<noteq> 0x5C" and d: "0x20 \<le> d" "d \<noteq> 0x22" "d \<noteq> 0x5C"
      by auto
    from True 3 have ih: "parse_string_chars (quote_chars r @ 0x22 # rest) = Some (r, rest)" by simp
    have "parse_string_chars (c # d # quote_chars r @ 0x22 # rest) = Some (c # d # r, rest)"
      unfolding parse_literal_unit[OF c] parse_literal_unit[OF d] ih by (simp add: consed_def)
    moreover from True have "quote_chars (c # d # r) = c # d # quote_chars r" by simp
    ultimately show ?thesis by (simp only: append_Cons)
  next
    case False
    with 3 have ih: "parse_string_chars (quote_chars (d # r) @ 0x22 # rest) = Some (d # r, rest)" by simp
    have "parse_string_chars (quote_unit c @ (quote_chars (d # r) @ 0x22 # rest)) = Some (c # d # r, rest)"
      unfolding parse_quote_unit ih by (simp add: consed_def)
    moreover from False have "quote_chars (c # d # r) = quote_unit c @ quote_chars (d # r)" by auto
    ultimately show ?thesis by (simp only: append_assoc)
  qed
qed

lemma parse_value_quote: "parse_value (quote s @ rest) = Some (JStr s, rest)"
  by (simp add: quote_def parse_value.simps parse_quote_chars)

subsection \<open>The parser consumes what it reads\<close>

lemma digits1_shorter: "digits1 s = Some (ds, r) \<Longrightarrow> length r < length s"
proof -
  assume a: "digits1 s = Some (ds, r)"
  then have t: "takeWhile is_digit s \<noteq> []" and r: "r = dropWhile is_digit s"
    by (auto simp: digits1_def split: if_splits)
  have "length (takeWhile is_digit s) + length r = length s"
    unfolding r by (metis length_append takeWhile_dropWhile_id)
  moreover from t have "0 < length (takeWhile is_digit s)" by simp
  ultimately show ?thesis by linarith
qed

lemma parse_int_part_shorter: "parse_int_part s = Some (ip, r) \<Longrightarrow> length r < length s"
  by (auto simp: parse_int_part_def split: list.splits if_splits dest: digits1_shorter)

lemma parse_fraction_shorter: "parse_fraction s = Some (fp, r) \<Longrightarrow> length r \<le> length s"
  by (auto simp: parse_fraction_def split: list.splits if_splits dest!: digits1_shorter)

lemma parse_exponent_shorter: "parse_exponent s = Some (ep, r) \<Longrightarrow> length r \<le> length s"
  by (auto simp: parse_exponent_def split: list.splits if_splits dest!: digits1_shorter)

lemma parse_number_shorter: "parse_number s = Some (lit, r) \<Longrightarrow> length r < length s"
proof -
  assume a: "parse_number s = Some (lit, r)"
  define s1 where "s1 = (case s of [] \<Rightarrow> s | c # cs \<Rightarrow> if c = 0x2D then cs else s)"
  have l1: "length s1 \<le> length s" by (auto simp: s1_def split: list.splits)
  from a obtain ip s2 fp s3 ep where
    i: "parse_int_part s1 = Some (ip, s2)" and f: "parse_fraction s2 = Some (fp, s3)"
    and e: "parse_exponent s3 = Some (ep, r)"
    by (auto simp: parse_number_def s1_def Let_def split: list.splits if_splits option.splits prod.splits)
  from parse_int_part_shorter[OF i] parse_fraction_shorter[OF f] parse_exponent_shorter[OF e] l1
  show ?thesis by linarith
qed

lemma skip_ws_tail_shorter: "skip_ws r = d # ds \<Longrightarrow> length (skip_ws ds) < length r"
proof -
  assume a: "skip_ws r = d # ds"
  have "length (skip_ws ds) \<le> length ds" by (rule length_skip_ws)
  also have "\<dots> < length (skip_ws r)" unfolding a by simp
  also have "\<dots> \<le> length r" by (rule length_skip_ws)
  finally show ?thesis .
qed

lemma skip_ws_tail_le: "skip_ws r = d # ds \<Longrightarrow> length ds < length r"
  using length_skip_ws[of r] by simp

lemma parse_shorter:
  "parse_value s = Some (v, r) \<Longrightarrow> length r < length s"
  "parse_elements s' = Some (vs, r') \<Longrightarrow> length r' < length s'"
  "parse_members s'' = Some (ms, r'') \<Longrightarrow> length r'' < length s''"
proof (induction s and s' and s'' arbitrary: v r and vs r' and ms r'' rule: parse_value_parse_elements_parse_members.induct)
  case (1 s)
  from "1.prems" obtain c cs where s: "s = c # cs"
    by (cases s) (auto simp: parse_value.simps)
  note p = "1.prems"[unfolded s, simplified parse_value.simps[of "c # cs"] list.case]
  consider (str) "c = 0x22" | (arr) "c \<noteq> 0x22" "c = 0x5B" | (obj) "c \<noteq> 0x22" "c \<noteq> 0x5B" "c = 0x7B"
    | (other) "c \<noteq> 0x22" "c \<noteq> 0x5B" "c \<noteq> 0x7B" by blast
  then show ?case
  proof cases
    case str
    with p obtain t where "parse_string_chars cs = Some (t, r)" by auto
    from parse_string_chars_shorter[OF this] show ?thesis by (simp add: s)
  next
    case arr
    with p obtain d ds where d: "skip_ws cs = d # ds" by (auto split: list.splits)
    show ?thesis
    proof (cases "d = 0x5D")
      case True
      with p arr d have "r = ds" by simp
      with skip_ws_tail_le[OF d] show ?thesis by (simp add: s)
    next
      case False
      with p arr d obtain es where "parse_elements (skip_ws cs) = Some (es, r)" by auto
      from "1.IH"(1)[OF s arr d False this] length_skip_ws[of cs] show ?thesis by (simp add: s)
    qed
  next
    case obj
    with p obtain d ds where d: "skip_ws cs = d # ds" by (auto split: list.splits)
    show ?thesis
    proof (cases "d = 0x7D")
      case True
      with p obj d have "r = ds" by simp
      with skip_ws_tail_le[OF d] show ?thesis by (simp add: s)
    next
      case False
      with p obj d obtain es where "parse_members (skip_ws cs) = Some (es, r)" by auto
      from "1.IH"(2)[OF s obj d False this] length_skip_ws[of cs] show ?thesis by (simp add: s)
    qed
  next
    case other
    with p show ?thesis
      by (auto simp: s split: if_splits dest: parse_number_shorter)
  qed
next
  case (2 s)
  from "2.prems" obtain v r where v: "parse_value s = Some (v, r)"
    by (subst (asm) parse_elements.simps) (auto split: option.splits)
  from "2.IH"(1)[OF v] have l: "length r < length s" .
  from "2.prems" v obtain d ds where d: "skip_ws r = d # ds"
    by (subst (asm) parse_elements.simps) (auto split: list.splits)
  note p = "2.prems"[unfolded parse_elements.simps[of s] v, simplified, unfolded d, simplified]
  show ?case
  proof (cases "d = 0x5D")
    case True
    with p have "r' = ds" by simp
    with skip_ws_tail_le[OF d] l show ?thesis by simp
  next
    case False
    with p have c: "d = 0x2C \<and> length (skip_ws ds) < length s" by (auto split: if_splits)
    with p False obtain es where e: "parse_elements (skip_ws ds) = Some (es, r')"
      by (auto simp: consed_def)
    from "2.IH"(2)[OF v refl d False c e] c show ?thesis by simp
  qed
next
  case (3 s)
  from "3.prems" obtain cs where s: "s = 0x22 # cs"
    by (subst (asm) parse_members.simps) (auto split: list.splits if_splits)
  note p0 = "3.prems"[unfolded s parse_members.simps[of "0x22 # cs"], simplified]
  from p0 obtain k r where k: "parse_string_chars cs = Some (k, r)"
    by (auto split: option.splits)
  note p1 = p0[unfolded k, simplified]
  from p1 obtain r1 where c: "skip_ws r = 0x3A # r1"
    by (auto split: list.splits if_splits)
  note p2 = p1[unfolded c, simplified]
  from p2 obtain v r2 where v: "parse_value (skip_ws r1) = Some (v, r2)"
    by (auto split: option.splits)
  note p3 = p2[unfolded v, simplified]
  from p3 obtain d ds where d: "skip_ws r2 = d # ds"
    by (auto split: list.splits)
  note p4 = p3[unfolded d, simplified]
  have l1: "length r < length cs" by (rule parse_string_chars_shorter[OF k])
  have l2: "length (skip_ws r1) < length r" by (rule skip_ws_tail_shorter[OF c])
  have l3: "length r2 < length (skip_ws r1)"
    by (rule "3.IH"(1)[OF s _ k refl c _ v]) simp_all
  show ?case
  proof (cases "d = 0x7D")
    case True
    with p4 have "r'' = ds" by simp
    with skip_ws_tail_le[OF d] l1 l2 l3 show ?thesis by (simp add: s)
  next
    case False
    with p4 have g: "d = 0x2C \<and> length (skip_ws ds) < length s" by (auto simp: s split: if_splits)
    with p4 False obtain es where e: "parse_members (skip_ws ds) = Some (es, r'')"
      by (auto simp: consed_def s)
    have "length r'' < length (skip_ws ds)"
      by (rule "3.IH"(2)[OF s _ k refl c _ v refl d False g e]) simp_all
    with g show ?thesis by simp
  qed
qed

text \<open>
  With \<open>parse_shorter\<close> the tests on lengths in \<open>parse_elements\<close> and \<open>parse_members\<close>
  always succeed: the two functions satisfy the equations without them.
\<close>

lemma parse_elements_unguarded:
  "parse_elements s =
     (case parse_value s of
        None \<Rightarrow> None
      | Some (v, r) \<Rightarrow>
         (case skip_ws r of
            [] \<Rightarrow> None
          | d # ds \<Rightarrow>
              if d = 0x5D then Some ([v], ds)
              else if d = 0x2C then consed v (parse_elements (skip_ws ds))
              else None))"
proof (cases "parse_value s")
  case None
  then show ?thesis by (subst parse_elements.simps) simp
next
  case (Some p)
  obtain v r where p: "p = (v, r)" by (cases p)
  show ?thesis
  proof (cases "skip_ws r")
    case Nil
    with Some p show ?thesis by (subst parse_elements.simps) simp
  next
    case (Cons d ds)
    from parse_shorter(1)[OF Some[unfolded p]] skip_ws_tail_shorter[OF Cons]
    have "length (skip_ws ds) < length s" by simp
    with Some p Cons show ?thesis by (subst parse_elements.simps) simp
  qed
qed

lemma parse_members_unguarded:
  "parse_members s =
     (case s of
        [] \<Rightarrow> None
      | q # cs \<Rightarrow>
          if q \<noteq> 0x22 then None
          else
            (case parse_string_chars cs of
               None \<Rightarrow> None
             | Some (k, r) \<Rightarrow>
                (case skip_ws r of
                   [] \<Rightarrow> None
                 | colon # r1 \<Rightarrow>
                     if colon \<noteq> 0x3A then None
                     else
                       (case parse_value (skip_ws r1) of
                          None \<Rightarrow> None
                        | Some (v, r2) \<Rightarrow>
                           (case skip_ws r2 of
                              [] \<Rightarrow> None
                            | d # ds \<Rightarrow>
                                if d = 0x7D then Some ([(k, v)], ds)
                                else if d = 0x2C then consed (k, v) (parse_members (skip_ws ds))
                                else None)))))"
proof -
  have g: "length (skip_ws ds) < length (q # cs)"
    if "parse_string_chars cs = Some (k, r)" "skip_ws r = colon # r1"
       "parse_value (skip_ws r1) = Some (v, r2)" "skip_ws r2 = d # ds"
    for q cs k r colon r1 v r2 d ds
  proof -
    from parse_string_chars_shorter[OF that(1)] skip_ws_tail_shorter[OF that(2)]
         parse_shorter(1)[OF that(3)] skip_ws_tail_shorter[OF that(4)]
    show ?thesis by simp
  qed
  show ?thesis
    by (subst parse_members.simps)
       (auto split: list.splits option.splits dest: g)
qed

subsection \<open>Reading back a history of messages\<close>

lemma stringify_message: "stringify (js_message r c) = Some (message_text (r, c))"
  by (simp add: js_message_def message_text_def)

lemma stringify_history:
  "stringify (history_value h) = Some ([0x5B] @ join_comma (map message_text h) @ [0x5D])"
  by (simp add: history_value_def stringify_message comp_def)

lemma skip_ws_Cons: "\<not> json_ws c \<Longrightarrow> skip_ws (c # t) = c # t"
  by (simp add: skip_ws_def)

lemma make_message_object:
  "make_object [(js ''role'', JStr r), (js ''content'', JStr c)] = js_message r c"
  by (simp add: make_object_def define_property_def js_message_def js_eq_iff key_before_def)
     (simp add: array_index_def js_def is_digit_def)

lemma parse_members_message:
  "parse_members (quote (js ''role'') @ [0x3A] @ quote r @ [0x2C] @
                  quote (js ''content'') @ [0x3A] @ quote c @ [0x7D] @ rest) =
     Some ([(js ''role'', JStr r), (js ''content'', JStr c)], rest)"
proof -
  let ?t2 = "quote (js ''content'') @ [0x3A] @ quote c @ [0x7D] @ rest"
  have skip: "\<And>t. skip_ws (0x22 # t) = 0x22 # t" "\<And>t. skip_ws (0x3A # t) = 0x3A # t"
    "\<And>t. skip_ws (0x2C # t) = 0x2C # t" "\<And>t. skip_ws (0x7D # t) = 0x7D # t"
    by (simp_all add: skip_ws_Cons json_ws_def)
  have pv: "\<And>v t. parse_value (0x22 # quote_chars v @ 0x22 # t) = Some (JStr v, t)"
    using parse_value_quote by (simp add: quote_def)
  have last: "parse_members ?t2 = Some ([(js ''content'', JStr c)], rest)"
    by (subst parse_members.simps) (simp add: quote_def parse_quote_chars skip pv)
  show ?thesis
    by (subst parse_members.simps) (simp add: quote_def parse_quote_chars skip pv last[unfolded quote_def, simplified] consed_def)
qed

lemma parse_value_message:
  "parse_value (message_text m @ rest) = Some (js_message (fst m) (snd m), rest)"
proof -
  define t where "t = quote (js ''role'') @ [0x3A] @ quote (fst m) @ [0x2C] @
             quote (js ''content'') @ [0x3A] @ quote (snd m) @ [0x7D] @ rest"
  have pm: "parse_members t = Some ([(js ''role'', JStr (fst m)), (js ''content'', JStr (snd m))], rest)"
    unfolding t_def by (rule parse_members_message)
  obtain u where u: "t = 0x22 # u" by (simp add: t_def quote_def)
  have s: "skip_ws t = t" unfolding u by (simp add: skip_ws_Cons json_ws_def)
  have "parse_value (0x7B # t) = Some (js_message (fst m) (snd m), rest)"
    by (subst parse_value.simps) (simp add: u s[unfolded u] pm[unfolded u] make_message_object)
  moreover have "message_text m @ rest = 0x7B # t"
    by (simp add: message_text_def t_def)
  ultimately show ?thesis by simp
qed

lemma messages_text_head: "\<exists>t. join_comma (map message_text (m # ms)) @ rest = 0x7B # t"
  by (cases ms) (auto simp: message_text_def)

lemma parse_elements_messages:
  "parse_elements (join_comma (map message_text (m # ms)) @ 0x5D # rest) =
     Some (map (\<lambda>m. js_message (fst m) (snd m)) (m # ms), rest)"
proof (induction ms arbitrary: m)
  case Nil
  show ?case
    by (subst parse_elements.simps)
       (simp add: parse_value_message skip_ws_Cons json_ws_def)
next
  case (Cons m' ms)
  define nxt where "nxt = join_comma (map message_text (m' # ms)) @ 0x5D # rest"
  have ih: "parse_elements nxt = Some (map (\<lambda>m. js_message (fst m) (snd m)) (m' # ms), rest)"
    unfolding nxt_def by (rule Cons.IH)
  have shape: "join_comma (map message_text (m # m' # ms)) @ 0x5D # rest =
                message_text m @ 0x2C # nxt"
    by (simp add: nxt_def)
  obtain t where t: "nxt = 0x7B # t"
    unfolding nxt_def using messages_text_head by blast
  have s: "skip_ws nxt = nxt"
    unfolding t by (simp add: skip_ws_Cons json_ws_def)
  have len: "length nxt < length (message_text m @ 0x2C # nxt)" by simp
  have "parse_elements (message_text m @ 0x2C # nxt) =
          Some (js_message (fst m) (snd m) # map (\<lambda>m. js_message (fst m) (snd m)) (m' # ms), rest)"
    by (subst parse_elements.simps)
       (simp add: parse_value_message skip_ws_Cons json_ws_def s len ih consed_def)
  then show ?case unfolding shape by simp
qed

lemma JSON_parse_history:
  "JSON_parse (0x5B # join_comma (map message_text h) @ [0x5D]) = Inr (history_value h)"
proof (cases h)
  case Nil
  then show ?thesis
    by (simp add: JSON_parse_def history_value_def parse_value.simps skip_ws_def json_ws_def)
next
  case (Cons m ms)
  define els where "els = join_comma (map message_text (m # ms)) @ [0x5D]"
  have pe: "parse_elements els = Some (map (\<lambda>m. js_message (fst m) (snd m)) (m # ms), [])"
    unfolding els_def by (rule parse_elements_messages)
  obtain t where t: "els = 0x7B # t"
    unfolding els_def using messages_text_head by blast
  have s: "skip_ws els = els"
    unfolding t by (simp add: skip_ws_Cons json_ws_def)
  have "parse_value (0x5B # els) = Some (history_value (m # ms), [])"
    by (subst parse_value.simps) (simp add: t s[unfolded t] pe[unfolded t] history_value_def)
  then show ?thesis
    unfolding Cons els_def[symmetric] by (simp add: JSON_parse_def skip_ws_def json_ws_def)
qed

subsection \<open>History in local storage\<close>

text \<open>
  C5. For every history of messages, what \<open>loadHistory\<close> returns from the storage
  written by \<open>saveHistory\<close> is that history: the same roles and contents in the same
  order. When nothing is stored under the key, \<open>loadHistory\<close> returns the empty array.
\<close>

theorem history_round_trip:
  "loadHistory (saveHistory (history_value h) st) = Inr (history_value h) \<and>
   (localStorage st history_key = None \<longrightarrow> loadHistory st = Inr (JArr []))"
  by (simp add: loadHistory_def saveHistory_def stringify_history JSON_parse_history)

theorem history_round_trip_witness:
  "localStorage \<lparr>inputValue = [], localStorage = Map.empty, messagesEl = [], requests = []\<rparr>
     history_key = None \<and>
   loadHistory \<lparr>inputValue = [], localStorage = Map.empty, messagesEl = [], requests = []\<rparr> =
     Inr (JArr []) \<and>
   localStorage
     (saveHistory (history_value [(js ''user'', js ''hi''), (js ''assistant'', 0x22 # 0x0A # js ''ok'')])
        \<lparr>inputValue = [], localStorage = Map.empty, messagesEl = [], requests = []\<rparr>)
     history_key =
     Some (js ''[{\"role\":\"user\",\"content\":\"hi\"},{\"role\":\"assistant\",\"content\":\"'' @
           [0x5C, 0x22, 0x5C, 0x6E] @ js ''ok\"}]'') \<and>
   loadHistory
     (saveHistory (history_value [(js ''user'', js ''hi''), (js ''assistant'', 0x22 # 0x0A # js ''ok'')])
        \<lparr>inputValue = [], localStorage = Map.empty, messagesEl = [], requests = []\<rparr>) =
     Inr (JArr [js_message (js ''user'') (js ''hi''),
                js_message (js ''assistant'') (0x22 # 0x0A # js ''ok'')])"
proof -
  have t: "localStorage
     (saveHistory (history_value [(js ''user'', js ''hi''), (js ''assistant'', 0x22 # 0x0A # js ''ok'')])
        \<lparr>inputValue = [], localStorage = Map.empty, messagesEl = [], requests = []\<rparr>)
     history_key =
     Some (js ''[{\"role\":\"user\",\"content\":\"hi\"},{\"role\":\"assistant\",\"content\":\"'' @
           [0x5C, 0x22, 0x5C, 0x6E] @ js ''ok\"}]'')"
    by (simp add: saveHistory_def stringify_history message_text_def quote_def)
       (simp add: js_def quote_unit_def high_surrogate_def low_surrogate_def)
  from history_round_trip
         [of "[(js ''user'', js ''hi''), (js ''assistant'', 0x22 # 0x0A # js ''ok'')]"
             "\<lparr>inputValue = [], localStorage = Map.empty, messagesEl = [], requests = []\<rparr>"] t
  show ?thesis by (simp add: history_value_def)
qed

text \<open>
  C6. Whatever is stored under the key, \<open>loadHistory\<close> returns a value and does not throw;
  when nothing is stored, or what is stored is not JSON, the value is the empty array.
\<close>

theorem loadHistory_fails_soft:
  "(\<exists>v. loadHistory st = Inr v) \<and>
   ((localStorage st history_key = None \<or>
     (\<exists>raw e. localStorage st history_key = Some raw \<and> JSON_parse raw = Inl e))
      \<longrightarrow> loadHistory st = Inr (JArr []))"
  by (auto simp: loadHistory_def split: option.splits sum.splits)

theorem loadHistory_fails_soft_witness:
  "localStorage \<lparr>inputValue = [], localStorage = [history_key \<mapsto> js ''{oops''], messagesEl = [],
                 requests = []\<rparr> history_key = Some (js ''{oops'') \<and>
   JSON_parse (js ''{oops'') = Inl SyntaxError \<and>
   loadHistory \<lparr>inputValue = [], localStorage = [history_key \<mapsto> js ''{oops''], messagesEl = [],
                requests = []\<rparr> = Inr (JArr [])"
proof -
  have s: "localStorage \<lparr>inputValue = [], localStorage = [history_key \<mapsto> js ''{oops''],
                          messagesEl = [], requests = []\<rparr> history_key = Some (js ''{oops'')"
    by simp
  have p: "JSON_parse (js ''{oops'') = Inl SyntaxError"
    by (simp add: JSON_parse_def js_def skip_ws_def json_ws_def parse_value.simps parse_members.simps)
  from loadHistory_fails_soft
         [of "\<lparr>inputValue = [], localStorage = [history_key \<mapsto> js ''{oops''], messagesEl = [],
               requests = []\<rparr>"] s p
  show ?thesis by blast
qed

subsection \<open>sendMessage\<close>

lemma js_trim_blank: "list_all js_whitespace s \<Longrightarrow> js_trim s = []"
proof -
  assume "list_all js_whitespace s"
  then have d: "dropWhile js_whitespace s = []" by (induction s) auto
  show ?thesis unfolding js_trim_def d by simp
qed

text \<open>
  An entry that renders has a string content, so the filter of line 169 cannot throw
  after the two renderings: \<open>sendMessage\<close> never enters the \<open>catch\<close> before the request.
\<close>

lemma render_message_content:
  "render_message m = Inr el \<Longrightarrow> \<exists>c. property m (js ''content'') = Inr (JStr c)"
  by (auto simp: render_message_def split: sum.splits jsval.splits)

lemma render_each_filter:
  "snd (render_each ms els) = None \<Longrightarrow> \<exists>kept. filter_placeholder ms = Inr kept"
proof (induction ms arbitrary: els)
  case Nil
  show ?case by simp
next
  case (Cons m ms)
  from Cons.prems obtain el where el: "render_message m = Inr el"
    by (cases "render_message m") auto
  with Cons.prems have "snd (render_each ms (els @ [el])) = None" by simp
  from Cons.IH[OF this] obtain kept where "filter_placeholder ms = Inr kept" ..
  with render_message_content[OF el] show ?case by auto
qed

lemma sendMessage_not_caught: "snd (sendMessage st) \<noteq> Caught e"
proof -
  have r: "\<exists>ms kept. h = JArr ms \<and> filter_placeholder ms = Inr kept"
    if "renderMessages h s = (s', None)" for h s s'
    using that render_each_filter
    by (cases h) (auto simp: renderMessages_def)
  show ?thesis
    unfolding sendMessage_def Let_def
    by (auto split: sum.splits prod.splits option.splits jsval.splits dest!: r)
qed

text \<open>
  What \<open>sendMessage\<close> sends when the stored history is a history of messages and the
  input is not blank: the messages of the history and the new user message, without
  those whose content is the sentinel.
\<close>

lemma property_message:
  "property (js_message r c) (js ''role'') = Inr (JStr r)"
  "property (js_message r c) (js ''content'') = Inr (JStr c)"
  by (simp_all add: js_message_def js_eq_iff)

lemma render_each_messages:
  "snd (render_each (map (\<lambda>m. js_message (fst m) (snd m)) h) els) = None"
  by (induction h arbitrary: els) (simp_all add: render_message_def property_message)

lemma filter_placeholder_messages:
  "filter_placeholder (map (\<lambda>m. js_message (fst m) (snd m)) h) =
     Inr (map (\<lambda>m. js_message (fst m) (snd m)) (filter (\<lambda>m. snd m \<noteq> ellipsis) h))"
  by (induction h) (simp_all add: property_message)

lemma sendMessage_request:
  assumes "loadHistory st = Inr (history_value h)" and "js_trim (inputValue st) \<noteq> []"
  shows "snd (sendMessage st) =
           Awaiting \<lparr>url = apiBase, http_method = js ''POST'', content_type = js ''application/json'',
                     body = [0x7B] @ quote (js ''messages'') @ [0x3A, 0x5B] @
                            join_comma (map message_text
                              (filter (\<lambda>m. snd m \<noteq> ellipsis) (h @ [(js ''user'', js_trim (inputValue st))]))) @
                            [0x5D, 0x7D]\<rparr>"
proof -
  define raw where "raw = js_trim (inputValue st)"
  define h1 where "h1 = h @ [(js ''user'', raw)]"
  define h2 where "h2 = h1 @ [(js ''assistant'', ellipsis)]"
  have l: "loadHistory (st\<lparr>inputValue := []\<rparr>) = Inr (history_value h)"
    using assms(1) by (simp add: loadHistory_def)
  have p1: "push (history_value h) (js_message (js ''user'') raw) = Inr (history_value h1)"
    by (simp add: history_value_def h1_def)
  have p2: "push (history_value h1) typingPlaceholder = Inr (history_value h2)"
    by (simp add: history_value_def h2_def typingPlaceholder_def)
  have r: "\<And>g s. snd (renderMessages (history_value g) s) = None"
    by (simp add: renderMessages_def history_value_def render_each_messages)
  have f: "filter_placeholder (map (\<lambda>m. js_message (fst m) (snd m)) h2) =
             Inr (map (\<lambda>m. js_message (fst m) (snd m)) (filter (\<lambda>m. snd m \<noteq> ellipsis) h1))"
  proof -
    have "filter (\<lambda>m. snd m \<noteq> ellipsis) h2 = filter (\<lambda>m. snd m \<noteq> ellipsis) h1"
      by (simp add: h2_def)
    with filter_placeholder_messages[of h2] show ?thesis by simp
  qed
  define st1 where "st1 = st\<lparr>inputValue := []\<rparr>"
  obtain st2 where r1: "renderMessages (history_value h1) st1 = (st2, None)"
    using r[of h1 st1] by (cases "renderMessages (history_value h1) st1") auto
  define st3 where "st3 = saveHistory (history_value h1) st2"
  obtain st4 where r2: "renderMessages (history_value h2) st3 = (st4, None)"
    using r[of h2 st3] by (cases "renderMessages (history_value h2) st3") auto
  have h2v: "history_value h2 = JArr (map (\<lambda>m. js_message (fst m) (snd m)) h2)"
    by (simp add: history_value_def)
  have texts: "\<And>g. map ((\<lambda>x. case stringify x of None \<Rightarrow> js ''null'' | Some t \<Rightarrow> t) \<circ>
                        (\<lambda>m. js_message (fst m) (snd m))) g = map message_text g"
    by (simp add: stringify_message)
  have "snd (sendMessage st) =
           Awaiting \<lparr>url = apiBase, http_method = js ''POST'', content_type = js ''application/json'',
                     body = [0x7B] @ quote (js ''messages'') @ [0x3A, 0x5B] @
                            join_comma (map message_text (filter (\<lambda>m. snd m \<noteq> ellipsis) h1)) @
                            [0x5D, 0x7D]\<rparr>"
    using assms(2)
    unfolding sendMessage_def Let_def raw_def[symmetric] st1_def[symmetric]
    by (simp add: l[folded st1_def] p1 r1 st3_def[symmetric] p2 r2 r2[unfolded h2v] h2v f texts)
  then show ?thesis by (simp add: h1_def raw_def)
qed

text \<open>
  C2. The claim: the body of the request holds the history without the one typing
  placeholder, every other message kept, a user message whose text is the sentinel
  included. The filter of line 169 compares contents, not the placeholder object:
  with nothing stored and the input \<open>\<dots>\<close> (U+2026), the history at the call is the
  user message \<open>\<dots>\<close> followed by the placeholder, and the body sent is
  \<open>{"messages":[]}\<close>; the user message is dropped with the placeholder.
\<close>

theorem sendMessage_drops_typed_ellipsis:
  "snd (sendMessage \<lparr>inputValue = ellipsis, localStorage = Map.empty, messagesEl = [],
                     requests = []\<rparr>) =
     Awaiting \<lparr>url = js ''/api/chat'', http_method = js ''POST'',
               content_type = js ''application/json'', body = js ''{\"messages\":[]}''\<rparr>"
  apply (simp add: sendMessage_def ellipsis_def js_trim_def js_whitespace_def loadHistory_def
           js_message_def renderMessages_def render_message_def saveHistory_def
           typingPlaceholder_def apiBase_def Let_def)
  apply (simp add: js_def quote_def quote_unit_def high_surrogate_def low_surrogate_def)
  done

text \<open>
  C7. When the input is empty or all white space, \<open>sendMessage\<close> returns at once: the
  state is unchanged, so nothing is appended to the history, storage is as it was, and
  no request is issued.
\<close>

theorem sendMessage_blank_input:
  assumes "list_all js_whitespace (inputValue st)"
  shows "sendMessage st = (st, Returned)"
  using js_trim_blank [OF assms] by (simp add: sendMessage_def)

theorem sendMessage_blank_input_witness:
  "list_all js_whitespace (inputValue \<lparr>inputValue = [0x20, 0x09, 0x0A, 0xA0],
                                        localStorage = [history_key \<mapsto> js ''[]''],
                                        messagesEl = [], requests = []\<rparr>) \<and>
   sendMessage \<lparr>inputValue = [0x20, 0x09, 0x0A, 0xA0], localStorage = [history_key \<mapsto> js ''[]''],
                messagesEl = [], requests = []\<rparr> =
     (\<lparr>inputValue = [0x20, 0x09, 0x0A, 0xA0], localStorage = [history_key \<mapsto> js ''[]''],
       messagesEl = [], requests = []\<rparr>, Returned)"
proof -
  have b: "list_all js_whitespace (inputValue \<lparr>inputValue = [0x20, 0x09, 0x0A, 0xA0],
                                        localStorage = [history_key \<mapsto> js ''[]''],
                                        messagesEl = [], requests = []\<rparr>)"
    by (simp add: js_whitespace_def)
  from sendMessage_blank_input [OF b] b show ?thesis by blast
qed

end
